theory Spec2Isabelle
  imports Complex_Main "HOL-Library.Multiset"
begin

section \<open>Python and numpy values used by \<^verbatim>\<open>mne/annotations.py\<close>\<close>

text \<open>
  Exceptions are values: every function that can raise returns \<open>error + 'a\<close>, with
  \<open>Inl\<close> for the exception. \<open>ValueError\<close> carries its message, so the three
  \<^verbatim>\<open>raise ValueError(...)\<close> of the constructor stay distinguishable.
\<close>

datatype error =
    ValueError string
  | TypeError string
  | IndexError string
  | ZeroDivisionError string

definition bind :: "error + 'a \<Rightarrow> ('a \<Rightarrow> error + 'b) \<Rightarrow> error + 'b" where
  "bind m f = (case m of Inl e \<Rightarrow> Inl e | Inr x \<Rightarrow> f x)"

text \<open>
  A numpy array is its shape and its elements in row-major order. numpy's float64 is
  idealised as \<open>real\<close> (no rounding, no NaN).  A well-formed array holds as many
  elements as its shape says.
\<close>

record 'a ndarray =
  shape :: "nat list"
  data :: "'a list"

definition valid_array :: "'a ndarray \<Rightarrow> bool" where
  "valid_array a \<longleftrightarrow> length (data a) = prod_list (shape a)"

definition ndim :: "'a ndarray \<Rightarrow> nat" where
  "ndim a = length (shape a)"

text \<open>Python's \<^verbatim>\<open>len(a)\<close>: the extent of the first axis; a zero-dimensional array has none.\<close>

definition len :: "'a ndarray \<Rightarrow> error + nat" where
  "len a = (case shape a of
      [] \<Rightarrow> Inl (TypeError ''len() of unsized object'')
    | n # _ \<Rightarrow> Inr n)"

text \<open>The \<open>i\<close>-th entry along the first axis, as the flat list of its elements.\<close>

definition row :: "'a ndarray \<Rightarrow> nat \<Rightarrow> 'a list" where
  "row a i = (let k = prod_list (tl (shape a)) in take k (drop (i * k) (data a)))"

text \<open>
  \<^verbatim>\<open>a[order]\<close> with an integer index array: the entries of the first axis picked in the
  order given; an index outside the first axis raises.
\<close>

definition take_rows :: "'a ndarray \<Rightarrow> nat list \<Rightarrow> error + 'a ndarray" where
  "take_rows a order = (case shape a of
      [] \<Rightarrow> Inl (IndexError ''too many indices for array'')
    | n # rest \<Rightarrow>
        if list_all (\<lambda>i. i < n) order
        then Inr \<lparr>shape = length order # rest, data = concat (map (row a) order)\<rparr>
        else Inl (IndexError ''index out of bounds''))"

text \<open>\<^verbatim>\<open>a + c\<close> for an array and a scalar: elementwise.\<close>

definition add_scalar :: "real ndarray \<Rightarrow> real \<Rightarrow> real ndarray" where
  "add_scalar a c = \<lparr>shape = shape a, data = map (\<lambda>x. x + c) (data a)\<rparr>"

text \<open>
  \<^verbatim>\<open>np.r_[x, y]\<close> for two arrays: concatenation along the first axis. The arrays need the
  same number of dimensions (at least one) and the same extents on the other axes.
\<close>

definition np_r :: "'a ndarray \<Rightarrow> 'a ndarray \<Rightarrow> error + 'a ndarray" where
  "np_r x y = (case shape x of
      [] \<Rightarrow> Inl (ValueError ''zero-dimensional arrays cannot be concatenated'')
    | n # rx \<Rightarrow> (case shape y of
        [] \<Rightarrow> Inl (ValueError ''all the input arrays must have same number of dimensions'')
      | m # ry \<Rightarrow>
          if length rx \<noteq> length ry
          then Inl (ValueError ''all the input arrays must have same number of dimensions'')
          else if rx \<noteq> ry
          then Inl (ValueError ''all the input array dimensions except for the concatenation axis must match exactly'')
          else Inr \<lparr>shape = (n + m) # rx, data = data x @ data y\<rparr>))"

text \<open>
  \<^verbatim>\<open>onset.argsort(axis=0)\<close> is numpy's default sort (kind \<^verbatim>\<open>'quicksort'\<close>). numpy promises
  an index array that sorts the keys and documents this kind as not stable; which of the
  sorting index orders comes back for equal keys is not fixed by the source. The model
  takes the function as a parameter \<open>argsort\<close> and states numpy's promise as
  \<open>sorting_order\<close>: the result lists every index once and reads the keys in
  non-decreasing order.
\<close>

definition sorting_order :: "nat list \<Rightarrow> real list \<Rightarrow> bool" where
  "sorting_order order xs \<longleftrightarrow>
     length order = length xs \<and> distinct order \<and> list_all (\<lambda>i. i < length xs) order \<and>
     sorted (map (\<lambda>i. xs ! i) order)"

text \<open>
  Two functions that keep numpy's promise. \<open>argsort_stable\<close> leaves equal keys in
  their original order; \<open>argsort_ties_reversed\<close> puts equal keys in reverse order. Each is
  one index order that numpy may return; for the keys \<open>[2, 1, 0, 0]\<close> the default
  \<^verbatim>\<open>argsort\<close> of a current numpy returns \<open>[3, 2, 1, 0]\<close>, the order of
  \<open>argsort_ties_reversed\<close>, and for \<open>[2, 1, 2]\<close> it returns \<open>[1, 0, 2]\<close>, the order of
  \<open>argsort_stable\<close>.
\<close>

definition argsort_stable :: "real list \<Rightarrow> nat list" where
  "argsort_stable xs = map snd (sort_key fst (zip xs [0..<length xs]))"

definition argsort_ties_reversed :: "real list \<Rightarrow> nat list" where
  "argsort_ties_reversed xs = map snd (sort_key fst (rev (zip xs [0..<length xs])))"

section \<open>The class \<^verbatim>\<open>Annotations\<close>\<close>

text \<open>
  Python numbers: \<^verbatim>\<open>float(x)\<close> turns an int into the float of the same value.
\<close>

datatype number = PyInt int | PyFloat real

fun float :: "number \<Rightarrow> real" where
  "float (PyInt i) = real_of_int i"
| "float (PyFloat r) = r"

text \<open>
  The documented forms of the argument \<^verbatim>\<open>orig_time\<close>: a datetime, an array holding the
  timestamp and the microseconds, or a scalar. A datetime is given by the local-time
  POSIX timestamp that \<^verbatim>\<open>time.mktime(orig_time.timetuple())\<close> computes for it.
  \<^verbatim>\<open>None\<close> is \<open>None\<close> of the option type.
\<close>

datatype orig_time_arg =
    Datetime real
  | Timestamp_Microseconds number number
  | Scalar number

record Annotations =
  onset :: "real ndarray"
  duration :: "real ndarray"
  description :: "string ndarray"
  orig_time :: "real option"

text \<open>Lines 31 to 38 of \<^verbatim>\<open>__init__\<close>: the value stored in \<^verbatim>\<open>self.orig_time\<close>.\<close>

definition init_orig_time :: "orig_time_arg option \<Rightarrow> real option" where
  "init_orig_time orig_time0 = (case orig_time0 of
      None \<Rightarrow> None
    | Some (Datetime t) \<Rightarrow> Some t
    | Some (Timestamp_Microseconds s us) \<Rightarrow> Some (float s + float us / 1000000)
    | Some (Scalar x) \<Rightarrow> Some (float x))"

text \<open>
  The chained comparison \<^verbatim>\<open>len(onset) == len(duration) == len(description)\<close>:
  \<^verbatim>\<open>len(description)\<close> is evaluated only when the first two lengths agree.
\<close>

definition equal_in_sizes :: "real ndarray \<Rightarrow> real ndarray \<Rightarrow> string ndarray \<Rightarrow> error + bool" where
  "equal_in_sizes onset0 duration0 description0 =
     bind (len onset0) (\<lambda>n1.
     bind (len duration0) (\<lambda>n2.
       if n1 \<noteq> n2 then Inr False
       else bind (len description0) (\<lambda>n3. Inr (n2 = n3))))"

text \<open>
  \<^verbatim>\<open>Annotations.__init__\<close>. A raise leaves no object behind: the result is then \<open>Inl\<close>.
\<close>

definition Annotations_init ::
  "(real list \<Rightarrow> nat list) \<Rightarrow> real ndarray \<Rightarrow> real ndarray \<Rightarrow> string ndarray \<Rightarrow>
   orig_time_arg option \<Rightarrow> error + Annotations" where
  "Annotations_init argsort onset0 duration0 description0 orig_time0 =
     (let self_orig_time = init_orig_time orig_time0 in
      if ndim onset0 \<noteq> 1
      then Inl (ValueError ''Onset must be a one dimensional array.'')
      else if ndim duration0 \<noteq> 1
      then Inl (ValueError ''Duration must be a one dimensional array.'')
      else bind (equal_in_sizes onset0 duration0 description0) (\<lambda>eq.
        if \<not> eq
        then Inl (ValueError ''Onset, duration and description must be equal in sizes.'')
        else
          let order = argsort (data onset0) in
          bind (take_rows onset0 order) (\<lambda>self_onset.
          bind (take_rows duration0 order) (\<lambda>self_duration.
          bind (take_rows description0 order) (\<lambda>self_description.
            Inr \<lparr>onset = self_onset, duration = self_duration,
                 description = self_description, orig_time = self_orig_time\<rparr>)))))"

section \<open>The helper \<^verbatim>\<open>_combine_annotations\<close>\<close>

text \<open>
  \<^verbatim>\<open>all(annotations)\<close> tests the truth value of each entry: \<^verbatim>\<open>None\<close> is false, and an
  \<^verbatim>\<open>Annotations\<close> object is true (the class defines neither \<^verbatim>\<open>__len__\<close> nor
  \<^verbatim>\<open>__bool__\<close>).
\<close>

definition truthy :: "Annotations option \<Rightarrow> bool" where
  "truthy x = (x \<noteq> None)"

text \<open>
  The local variable \<^verbatim>\<open>onset\<close> of line 73 or 75: an array on line 73, the second
  \<^verbatim>\<open>Annotations\<close> object itself on line 75.
\<close>

datatype pyvalue = Array "real ndarray" | Object Annotations

text \<open>
  \<^verbatim>\<open>np.r_[x, v]\<close> for what that variable holds. An \<^verbatim>\<open>Annotations\<close> object is not
  array-like: numpy sees it as a zero-dimensional array of one Python object, and the
  numpy the code was written for (before release 1.13) refuses to concatenate it with
  the one-dimensional \<open>x\<close>; the model follows that release. Later releases wrap the
  object into a one-element object array; the constructor then gets an onset array that
  holds the object, and fails in its size test or, when it has to compare the object
  with a number, with \<^verbatim>\<open>TypeError\<close> in \<^verbatim>\<open>argsort\<close>. In neither case are the onsets of
  the object read.
\<close>

definition np_r_value :: "real ndarray \<Rightarrow> pyvalue \<Rightarrow> error + real ndarray" where
  "np_r_value x v = (case v of
      Array y \<Rightarrow> np_r x y
    | Object b \<Rightarrow> Inl (ValueError ''all the input arrays must have same number of dimensions''))"

text \<open>
  \<^verbatim>\<open>sum(last_samps[:-1]) / sfreq\<close>: an integer divided by the float \<^verbatim>\<open>sfreq\<close>.
\<close>

definition shift_seconds :: "int list \<Rightarrow> real \<Rightarrow> error + real" where
  "shift_seconds last_samps sfreq =
     (if sfreq = 0 then Inl (ZeroDivisionError ''float division by zero'')
      else Inr (real_of_int (sum_list (butlast last_samps)) / sfreq))"

definition combine_annotations ::
  "(real list \<Rightarrow> nat list) \<Rightarrow> Annotations option \<times> Annotations option \<Rightarrow> int list \<Rightarrow> real \<Rightarrow>
   error + Annotations option" where
  "combine_annotations argsort annotations last_samps sfreq =
     (if \<not> list_all truthy [fst annotations, snd annotations] then Inr None
      else case fst annotations of
        None \<Rightarrow> Inr (snd annotations)
      | Some a \<Rightarrow> (case snd annotations of
          None \<Rightarrow> Inr (Some a)
        | Some b \<Rightarrow>
            bind (if orig_time b = None
                  then bind (shift_seconds last_samps sfreq) (\<lambda>s. Inr (Array (add_scalar (onset b) s)))
                  else Inr (Object b)) (\<lambda>onset1.
            bind (np_r_value (onset a) onset1) (\<lambda>onset2.
            bind (np_r (duration a) (duration b)) (\<lambda>duration2.
            bind (np_r (description a) (description b)) (\<lambda>description2.
              map_sum id Some
                (Annotations_init argsort onset2 duration2 description2
                   (map_option (\<lambda>t. Scalar (PyFloat t)) (orig_time a)))))))))"

section \<open>Serialization\<close>

text \<open>
  The values \<^verbatim>\<open>_serialize\<close> hands to \<^verbatim>\<open>json.dumps\<close>: \<^verbatim>\<open>None\<close>, floats, strings and
  (nested) lists of them, in a dictionary with string keys. A dictionary is the list of
  its items in the order \<^verbatim>\<open>json.dumps\<close> writes them (insertion order in current Python);
  what is read from a dictionary is read by key, with \<open>map_of\<close>.
\<close>

datatype json = JNull | JNumber real | JString string | JArray "json list"

text \<open>
  The libraries \<^verbatim>\<open>json.dumps\<close> and \<^verbatim>\<open>json.loads\<close>, after their documentation, on the text
  as a sequence of tokens. A number token stands for the decimal text \<^verbatim>\<open>json.dumps\<close>
  writes for a float, which \<^verbatim>\<open>json.loads\<close> reads back as the same float; a string token
  stands for the quoted text of a string.
\<close>

datatype token = LBrace | RBrace | LBracket | RBracket | Comma | Colon | Null | Num real | Str string

fun separated :: "token list list \<Rightarrow> token list" where
  "separated [] = []"
| "separated [x] = x"
| "separated (x # y # zs) = x @ Comma # separated (y # zs)"

fun encode :: "json \<Rightarrow> token list" where
  "encode JNull = [Null]"
| "encode (JNumber r) = [Num r]"
| "encode (JString s) = [Str s]"
| "encode (JArray vs) = LBracket # separated (map encode vs) @ [RBracket]"

definition encode_item :: "string \<times> json \<Rightarrow> token list" where
  "encode_item kv = Str (fst kv) # Colon # encode (snd kv)"

definition json_dumps :: "(string \<times> json) list \<Rightarrow> token list" where
  "json_dumps d = LBrace # separated (map encode_item d) @ [RBrace]"

text \<open>
  The parser reads one value from the front of the text and returns it with the rest.
  Its first argument bounds the number of nested calls; \<open>json_loads\<close> gives it the
  length of the text, which is enough for every text. \<open>json_loads\<close> is \<^verbatim>\<open>json.loads\<close>
  on the texts of dictionaries, the only texts \<^verbatim>\<open>_serialize\<close> writes; on a text that
  cannot be parsed \<^verbatim>\<open>json.loads\<close> raises \<^verbatim>\<open>ValueError\<close>.
\<close>

fun decode :: "nat \<Rightarrow> token list \<Rightarrow> (json \<times> token list) option"
  and decode_elements :: "nat \<Rightarrow> token list \<Rightarrow> (json list \<times> token list) option" where
  "decode 0 ts = None"
| "decode (Suc n) ts = (case ts of
      Null # r \<Rightarrow> Some (JNull, r)
    | Num x # r \<Rightarrow> Some (JNumber x, r)
    | Str s # r \<Rightarrow> Some (JString s, r)
    | LBracket # RBracket # r \<Rightarrow> Some (JArray [], r)
    | LBracket # r \<Rightarrow> (case decode_elements n r of
          None \<Rightarrow> None
        | Some (vs, r') \<Rightarrow> Some (JArray vs, r'))
    | _ \<Rightarrow> None)"
| "decode_elements 0 ts = None"
| "decode_elements (Suc n) ts = (case decode n ts of
      None \<Rightarrow> None
    | Some (v, Comma # r) \<Rightarrow> (case decode_elements n r of
          None \<Rightarrow> None
        | Some (vs, r') \<Rightarrow> Some (v # vs, r'))
    | Some (v, RBracket # r) \<Rightarrow> Some ([v], r)
    | Some (v, _) \<Rightarrow> None)"

fun decode_items :: "nat \<Rightarrow> token list \<Rightarrow> ((string \<times> json) list \<times> token list) option" where
  "decode_items 0 ts = None"
| "decode_items (Suc n) ts = (case ts of
      Str k # Colon # r \<Rightarrow> (case decode n r of
          None \<Rightarrow> None
        | Some (v, Comma # r') \<Rightarrow> (case decode_items n r' of
              None \<Rightarrow> None
            | Some (d, r'') \<Rightarrow> Some ((k, v) # d, r''))
        | Some (v, RBrace # r') \<Rightarrow> Some ([(k, v)], r')
        | Some (v, _) \<Rightarrow> None)
    | _ \<Rightarrow> None)"

definition json_loads :: "token list \<Rightarrow> error + (string \<times> json) list" where
  "json_loads ts = (case ts of
      LBrace # RBrace # [] \<Rightarrow> Inr []
    | LBrace # r \<Rightarrow> (case decode_items (length ts) r of
          Some (d, []) \<Rightarrow> Inr d
        | _ \<Rightarrow> Inl (ValueError ''No JSON object could be decoded''))
    | _ \<Rightarrow> Inl (ValueError ''No JSON object could be decoded''))"

text \<open>
  \<^verbatim>\<open>a.tolist()\<close>: the array as nested lists, one level for each dimension. (The case of an
  empty list at dimension zero does not arise for an array that holds as many elements
  as its shape says.)
\<close>

fun nested :: "('a \<Rightarrow> json) \<Rightarrow> nat list \<Rightarrow> 'a list \<Rightarrow> json" where
  "nested f [] xs = (case xs of [] \<Rightarrow> JNull | x # _ \<Rightarrow> f x)"
| "nested f (n # rest) xs =
     JArray (map (\<lambda>i. nested f rest (take (prod_list rest) (drop (i * prod_list rest) xs)))
       [0..<n])"

definition tolist :: "('a \<Rightarrow> json) \<Rightarrow> 'a ndarray \<Rightarrow> json" where
  "tolist f a = nested f (shape a) (data a)"

text \<open>\<^verbatim>\<open>Annotations._serialize\<close>, lines 55 to 60.\<close>

definition serialize :: "Annotations \<Rightarrow> token list" where
  "serialize self =
     json_dumps [(''onset'', tolist JNumber (onset self)),
                 (''duration'', tolist JNumber (duration self)),
                 (''description'', tolist JString (description self)),
                 (''orig_time'', case orig_time self of None \<Rightarrow> JNull | Some t \<Rightarrow> JNumber t)]"

section \<open>Well-formed objects and the example sets of the specification\<close>

text \<open>
  An entry of the tuple given to \<^verbatim>\<open>_combine_annotations\<close> is well formed when it is
  \<^verbatim>\<open>None\<close> or its three arrays are well formed.
\<close>

definition valid_annotations :: "Annotations \<Rightarrow> bool" where
  "valid_annotations a \<longleftrightarrow>
     valid_array (onset a) \<and> valid_array (duration a) \<and> valid_array (description a)"

definition valid_entry :: "Annotations option \<Rightarrow> bool" where
  "valid_entry x = (case x of None \<Rightarrow> True | Some a \<Rightarrow> valid_annotations a)"

text \<open>
  The entries of a set with a one-dimensional description, read as triples of onset,
  duration and description.
\<close>

definition entries :: "real ndarray \<Rightarrow> real ndarray \<Rightarrow> string ndarray \<Rightarrow> (real \<times> real \<times> string) list" where
  "entries on du de = zip (data on) (zip (data du) (data de))"

text \<open>
  The two sets of the offset merge example: onset \<open>[1.0]\<close>, duration \<open>[0.5]\<close>,
  description \<open>["x"]\<close>, and onset \<open>[0.2]\<close>, duration \<open>[0.1]\<close>, description \<open>["y"]\<close>,
  both without origin time.
\<close>

definition example_a :: Annotations where
  "example_a = \<lparr>onset = \<lparr>shape = [1], data = [1]\<rparr>,
                 duration = \<lparr>shape = [1], data = [1 / 2]\<rparr>,
                 description = \<lparr>shape = [1], data = [''x'']\<rparr>,
                 orig_time = None\<rparr>"

definition example_b :: Annotations where
  "example_b = \<lparr>onset = \<lparr>shape = [1], data = [1 / 5]\<rparr>,
                 duration = \<lparr>shape = [1], data = [1 / 10]\<rparr>,
                 description = \<lparr>shape = [1], data = [''y'']\<rparr>,
                 orig_time = None\<rparr>"

section \<open>Facts about the array operations\<close>

lemma bind_Inr [simp]: "bind (Inr x) f = f x"
  by (simp add: bind_def)

lemma bind_Inl [simp]: "bind (Inl e) f = Inl e"
  by (simp add: bind_def)

lemma row_1d:
  assumes "shape a = [n]" "i < length (data a)"
  shows "row a i = [data a ! i]"
  using assms by (simp add: row_def take_Suc_conv_app_nth)

lemma concat_rows_1d:
  assumes "shape a = [n]" "list_all (\<lambda>i. i < length (data a)) order"
  shows "concat (map (row a) order) = map (\<lambda>i. data a ! i) order"
  using assms(2) by (induction order) (simp_all add: row_1d [OF assms(1)])

lemma sorting_order_set:
  assumes "sorting_order order xs"
  shows "set order = {0..<length xs}"
proof -
  from assms have l: "length order = length xs" and d: "distinct order"
    and b: "list_all (\<lambda>i. i < length xs) order"
    by (simp_all add: sorting_order_def)
  from b have sub: "set order \<subseteq> {0..<length xs}" by (auto simp: list_all_iff)
  from d l have "card (set order) = card {0..<length xs}" by (simp add: distinct_card)
  with sub show ?thesis by (simp add: card_subset_eq)
qed

lemma sorting_order_mset:
  assumes "sorting_order order xs"
  shows "mset order = mset [0..<length xs]"
proof -
  from assms have d: "distinct order" by (simp add: sorting_order_def)
  have "mset order = mset_set (set order)" using d by (simp add: mset_set_set)
  also have "\<dots> = mset_set {0..<length xs}" by (simp only: sorting_order_set [OF assms])
  finally show ?thesis by simp
qed

lemma zip_upt_nth:
  assumes "p \<in> set (zip xs [0..<length xs])"
  shows "xs ! snd p = fst p"
  using assms by (auto simp: set_zip)

lemma argsort_stable_sorting: "sorting_order (argsort_stable xs) xs"
proof -
  let ?ps = "zip xs [0..<length xs]"
  let ?s = "sort_key fst ?ps"
  have m: "mset (map snd ?s) = mset [0..<length xs]"
  proof -
    have "mset (map snd ?s) = mset (map snd ?ps)" by (simp only: mset_map mset_sort)
    also have "map snd ?ps = [0..<length xs]" by (rule map_snd_zip) simp
    finally show ?thesis .
  qed
  have len: "length (argsort_stable xs) = length xs" by (simp add: argsort_stable_def)
  have dist: "distinct (argsort_stable xs)"
    using m mset_eq_imp_distinct_iff [OF m] by (simp add: argsort_stable_def)
  have "set (map snd ?s) = set [0..<length xs]" using m by (rule mset_eq_setD)
  then have bnd: "list_all (\<lambda>i. i < length xs) (argsort_stable xs)"
    by (auto simp: argsort_stable_def list_all_iff)
  have "map (\<lambda>i. xs ! i) (map snd ?s) = map fst ?s"
    by (auto simp: zip_upt_nth)
  then have srt: "sorted (map (\<lambda>i. xs ! i) (argsort_stable xs))"
    by (simp add: argsort_stable_def del: map_map)
  from len dist bnd srt show ?thesis by (simp add: sorting_order_def)
qed

lemma argsort_ties_reversed_sorting: "sorting_order (argsort_ties_reversed xs) xs"
proof -
  let ?ps = "zip xs [0..<length xs]"
  let ?s = "sort_key fst (rev ?ps)"
  have m: "mset (map snd ?s) = mset [0..<length xs]"
  proof -
    have "mset (map snd ?s) = mset (map snd ?ps)" by (simp only: mset_map mset_sort mset_rev)
    also have "map snd ?ps = [0..<length xs]" by (rule map_snd_zip) simp
    finally show ?thesis .
  qed
  have len: "length (argsort_ties_reversed xs) = length xs"
    by (simp add: argsort_ties_reversed_def)
  have dist: "distinct (argsort_ties_reversed xs)"
    using mset_eq_imp_distinct_iff [OF m] by (simp add: argsort_ties_reversed_def)
  have "set (map snd ?s) = set [0..<length xs]" using m by (rule mset_eq_setD)
  then have bnd: "list_all (\<lambda>i. i < length xs) (argsort_ties_reversed xs)"
    by (auto simp: argsort_ties_reversed_def list_all_iff)
  have "map (\<lambda>i. xs ! i) (map snd ?s) = map fst ?s"
    by (auto simp: zip_upt_nth)
  then have srt: "sorted (map (\<lambda>i. xs ! i) (argsort_ties_reversed xs))"
    by (simp add: argsort_ties_reversed_def del: map_map)
  from len dist bnd srt show ?thesis by (simp add: sorting_order_def)
qed

lemma Annotations_init_ok:
  assumes "shape on = [n]" "shape du = [n]" "shape de = n # rest"
    and "list_all (\<lambda>i. i < n) (argsort (data on))"
  shows "Annotations_init argsort on du de ot =
     Inr \<lparr>onset = \<lparr>shape = [length (argsort (data on))],
                    data = concat (map (row on) (argsort (data on)))\<rparr>,
          duration = \<lparr>shape = [length (argsort (data on))],
                    data = concat (map (row du) (argsort (data on)))\<rparr>,
          description = \<lparr>shape = length (argsort (data on)) # rest,
                    data = concat (map (row de) (argsort (data on)))\<rparr>,
          orig_time = init_orig_time ot\<rparr>"
  using assms
  by (simp add: Annotations_init_def ndim_def equal_in_sizes_def len_def take_rows_def Let_def)

lemma ndim_1: "ndim a = 1 \<longleftrightarrow> (\<exists>n. shape a = [n])"
  by (cases "shape a") (auto simp: ndim_def)

lemma Annotations_init_Inr_shapes:
  assumes "Annotations_init argsort on du de ot = Inr obj"
  obtains n rest where "shape on = [n]" "shape du = [n]" "shape de = n # rest"
    "list_all (\<lambda>i. i < n) (argsort (data on))"
proof -
  from assms have "ndim on = 1" "ndim du = 1"
    by (auto simp: Annotations_init_def Let_def split: if_splits)
  then obtain n m where s: "shape on = [n]" "shape du = [m]"
    unfolding ndim_1 by blast
  with assms have nm: "n = m"
    by (auto simp: Annotations_init_def Let_def ndim_def equal_in_sizes_def len_def
        split: if_splits)
  from assms s nm obtain rest where r: "shape de = n # rest"
    by (cases "shape de")
      (auto simp: Annotations_init_def Let_def ndim_def equal_in_sizes_def len_def
        split: if_splits)
  from assms s nm r have "list_all (\<lambda>i. i < n) (argsort (data on))"
    by (auto simp: Annotations_init_def Let_def ndim_def equal_in_sizes_def len_def
        take_rows_def split: if_splits)
  with s nm r show thesis by (auto intro: that)
qed

lemma length_row:
  assumes "shape a = n # rest" "valid_array a" "i < n"
  shows "length (row a i) = prod_list rest"
proof -
  let ?k = "prod_list rest"
  from assms(1,2) have l: "length (data a) = n * ?k" by (simp add: valid_array_def)
  from assms(3) have "Suc i \<le> n" by simp
  then have "Suc i * ?k \<le> n * ?k" by (rule mult_le_mono1)
  then have "?k \<le> n * ?k - i * ?k" by simp
  with l assms(1) show ?thesis by (simp add: row_def Let_def)
qed

lemma take_rows_valid:
  assumes "valid_array a" "take_rows a order = Inr r"
  shows "valid_array r"
proof (cases "shape a")
  case Nil
  with assms(2) show ?thesis by (simp add: take_rows_def)
next
  case (Cons n rest)
  with assms(2) have b: "list_all (\<lambda>i. i < n) order"
    and r: "r = \<lparr>shape = length order # rest, data = concat (map (row a) order)\<rparr>"
    by (auto simp: take_rows_def split: if_splits)
  from b have "length (concat (map (row a) order)) = length order * prod_list rest"
    by (induction order) (simp_all add: length_row [OF Cons assms(1)])
  with r show ?thesis by (simp add: valid_array_def)
qed

lemma np_r_valid:
  assumes "valid_array x" "valid_array y" "np_r x y = Inr r"
  shows "valid_array r"
  using assms
  by (auto simp: np_r_def valid_array_def algebra_simps split: list.splits if_splits)

lemma add_scalar_valid: "valid_array (add_scalar a c) = valid_array a"
  by (simp add: add_scalar_def valid_array_def)

lemma combine_Inr_Some:
  assumes "combine_annotations argsort annotations ls sf = Inr (Some obj)"
  obtains a b on2 du2 de2 where
    "annotations = (Some a, Some b)" "orig_time b = None" "sf \<noteq> 0"
    "np_r (onset a) (add_scalar (onset b) (real_of_int (sum_list (butlast ls)) / sf)) = Inr on2"
    "np_r (duration a) (duration b) = Inr du2"
    "np_r (description a) (description b) = Inr de2"
    "Annotations_init argsort on2 du2 de2 (map_option (\<lambda>t. Scalar (PyFloat t)) (orig_time a)) = Inr obj"
proof -
  obtain x y where xy: "annotations = (x, y)" by (cases annotations)
  from assms xy obtain a b where ab: "x = Some a" "y = Some b"
    by (cases x; cases y) (auto simp: combine_annotations_def truthy_def)
  have ot: "orig_time b = None"
  proof (rule ccontr)
    assume "orig_time b \<noteq> None"
    with assms xy ab show False
      by (simp add: combine_annotations_def truthy_def np_r_value_def)
  qed
  have sf: "sf \<noteq> 0"
  proof
    assume "sf = 0"
    with assms xy ab ot show False
      by (simp add: combine_annotations_def truthy_def shift_seconds_def)
  qed
  let ?s = "real_of_int (sum_list (butlast ls)) / sf"
  from assms xy ab ot sf have c:
    "bind (np_r (onset a) (add_scalar (onset b) ?s)) (\<lambda>onset2.
     bind (np_r (duration a) (duration b)) (\<lambda>duration2.
     bind (np_r (description a) (description b)) (\<lambda>description2.
       map_sum id Some (Annotations_init argsort onset2 duration2 description2
         (map_option (\<lambda>t. Scalar (PyFloat t)) (orig_time a)))))) = Inr (Some obj)"
    by (simp add: combine_annotations_def truthy_def shift_seconds_def np_r_value_def)
  then obtain on2 where on2: "np_r (onset a) (add_scalar (onset b) ?s) = Inr on2"
    by (cases "np_r (onset a) (add_scalar (onset b) ?s)") simp_all
  with c obtain du2 where du2: "np_r (duration a) (duration b) = Inr du2"
    by (cases "np_r (duration a) (duration b)") simp_all
  with c on2 obtain de2 where de2: "np_r (description a) (description b) = Inr de2"
    by (cases "np_r (description a) (description b)") simp_all
  with c on2 du2 have "Annotations_init argsort on2 du2 de2
      (map_option (\<lambda>t. Scalar (PyFloat t)) (orig_time a)) = Inr obj"
    by (cases "Annotations_init argsort on2 du2 de2
      (map_option (\<lambda>t. Scalar (PyFloat t)) (orig_time a))") simp_all
  with xy ab ot sf on2 du2 de2 show thesis by (auto intro: that)
qed

lemma Annotations_init_len:
  assumes "Annotations_init argsort on du de ot = Inr obj"
  shows "len (onset obj) = Inr (length (argsort (data on)))"
    "len (duration obj) = Inr (length (argsort (data on)))"
    "len (description obj) = Inr (length (argsort (data on)))"
proof -
  from assms obtain n rest where s: "shape on = [n]" "shape du = [n]" "shape de = n # rest"
    "list_all (\<lambda>i. i < n) (argsort (data on))"
    by (rule Annotations_init_Inr_shapes)
  from Annotations_init_ok [where argsort = argsort and ot = ot, OF s] assms
  show "len (onset obj) = Inr (length (argsort (data on)))"
    "len (duration obj) = Inr (length (argsort (data on)))"
    "len (description obj) = Inr (length (argsort (data on)))"
    by (auto simp: len_def)
qed

lemma Annotations_init_valid:
  assumes "Annotations_init argsort on du de ot = Inr obj"
    and "valid_array on" "valid_array du" "valid_array de"
  shows "valid_array (onset obj)" "valid_array (duration obj)" "valid_array (description obj)"
proof -
  let ?order = "argsort (data on)"
  from assms(1) obtain n rest where s: "shape on = [n]" "shape du = [n]" "shape de = n # rest"
    "list_all (\<lambda>i. i < n) ?order"
    by (rule Annotations_init_Inr_shapes)
  from s have t: "take_rows on ?order = Inr \<lparr>shape = [length ?order], data = concat (map (row on) ?order)\<rparr>"
    "take_rows du ?order = Inr \<lparr>shape = [length ?order], data = concat (map (row du) ?order)\<rparr>"
    "take_rows de ?order = Inr \<lparr>shape = length ?order # rest, data = concat (map (row de) ?order)\<rparr>"
    by (simp_all add: take_rows_def)
  from Annotations_init_ok [where argsort = argsort and ot = ot, OF s] assms(1)
  have o: "onset obj = \<lparr>shape = [length ?order], data = concat (map (row on) ?order)\<rparr>"
    "duration obj = \<lparr>shape = [length ?order], data = concat (map (row du) ?order)\<rparr>"
    "description obj = \<lparr>shape = length ?order # rest, data = concat (map (row de) ?order)\<rparr>"
    by auto
  show "valid_array (onset obj)" using take_rows_valid [OF assms(2) t(1)] o(1) by simp
  show "valid_array (duration obj)" using take_rows_valid [OF assms(3) t(2)] o(2) by simp
  show "valid_array (description obj)" using take_rows_valid [OF assms(4) t(3)] o(3) by simp
qed

lemma Annotations_init_sorted:
  assumes "Annotations_init argsort on du de ot = Inr obj"
    and "valid_array on" and "sorting_order (argsort (data on)) (data on)"
  shows "data (onset obj) = map (\<lambda>i. data on ! i) (argsort (data on))"
    and "sorted (data (onset obj))"
proof -
  let ?order = "argsort (data on)"
  from assms(1) obtain n rest where s: "shape on = [n]" "shape du = [n]" "shape de = n # rest"
    "list_all (\<lambda>i. i < n) ?order"
    by (rule Annotations_init_Inr_shapes)
  from s(1) assms(2) have n: "length (data on) = n" by (simp add: valid_array_def)
  with s(4) have "list_all (\<lambda>i. i < length (data on)) ?order" by simp
  from concat_rows_1d [OF s(1) this] Annotations_init_ok [where argsort = argsort and ot = ot, OF s] assms(1)
  show d: "data (onset obj) = map (\<lambda>i. data on ! i) ?order" by auto
  from assms(3) show "sorted (data (onset obj))" unfolding d by (simp add: sorting_order_def)
qed

section \<open>Merging with an absent set\<close>

text \<open>
  Claim C1 (identity merge): \<^verbatim>\<open>combine(A, absent)\<close> should give \<open>A\<close> and
  \<^verbatim>\<open>combine(absent, B)\<close> should give \<open>B\<close>. The code tests \<^verbatim>\<open>not all(annotations)\<close>
  first, which is already true when one entry is \<^verbatim>\<open>None\<close>: the two \<^verbatim>\<open>elif\<close> branches
  that return the other set are never reached, and the result is \<^verbatim>\<open>None\<close> whenever an
  entry is absent.
\<close>

theorem combine_with_absent_returns_None:
  "combine_annotations argsort (Some a, None) last_samps sfreq = Inr None \<and>
   combine_annotations argsort (None, Some b) last_samps sfreq = Inr None \<and>
   combine_annotations argsort (None, None) last_samps sfreq = Inr None"
  by (simp add: combine_annotations_def truthy_def)

section \<open>Merging a set that carries its own origin time\<close>

text \<open>
  Claim C2 (absolute-timestamp merge): when the second set has \<^verbatim>\<open>orig_time\<close> set, its
  onsets should reach the merged result unshifted. Line 75 binds \<^verbatim>\<open>onset\<close> to the second
  \<^verbatim>\<open>Annotations\<close> object, not to its \<^verbatim>\<open>onset\<close> array; the onsets of the second set are
  never read on this branch, and the concatenation of line 76 fails.
\<close>

theorem combine_absolute_branch_fails:
  "combine_annotations argsort (Some a, Some (b\<lparr>orig_time := Some t\<rparr>)) last_samps sfreq =
     Inl (ValueError ''all the input arrays must have same number of dimensions'')"
  by (simp add: combine_annotations_def truthy_def np_r_value_def)

section \<open>The invariants of a constructed set\<close>

lemma example_merge:
  "combine_annotations argsort_stable (Some example_a, Some example_b) [1000, 500] 500 =
     Inr (Some \<lparr>onset = \<lparr>shape = [2], data = [1, 11 / 5]\<rparr>,
                duration = \<lparr>shape = [2], data = [1 / 2, 1 / 10]\<rparr>,
                description = \<lparr>shape = [2], data = [''x'', ''y'']\<rparr>,
                orig_time = None\<rparr>)"
  by (simp add: combine_annotations_def truthy_def example_a_def example_b_def shift_seconds_def
      add_scalar_def np_r_value_def np_r_def Annotations_init_def ndim_def equal_in_sizes_def
      len_def take_rows_def row_def argsort_stable_def init_orig_time_def Let_def)

lemma example_init:
  "Annotations_init argsort_stable \<lparr>shape = [3], data = [3, 1, 2]\<rparr>
      \<lparr>shape = [3], data = [1 / 2, 1 / 4, 1 / 8]\<rparr>
      \<lparr>shape = [3], data = [''c'', ''a'', ''b'']\<rparr> None =
     Inr \<lparr>onset = \<lparr>shape = [3], data = [1, 2, 3]\<rparr>,
          duration = \<lparr>shape = [3], data = [1 / 4, 1 / 8, 1 / 2]\<rparr>,
          description = \<lparr>shape = [3], data = [''a'', ''b'', ''c'']\<rparr>,
          orig_time = None\<rparr>"
  by (simp add: Annotations_init_def ndim_def equal_in_sizes_def
      len_def take_rows_def row_def argsort_stable_def init_orig_time_def Let_def)

lemma combine_valid:
  assumes "list_all valid_entry [fst annotations, snd annotations]"
    and "combine_annotations argsort annotations last_samps sfreq = Inr (Some obj)"
  shows "valid_annotations obj"
proof -
  from assms(2) obtain a b on2 du2 de2 where ab: "annotations = (Some a, Some b)"
    and r: "np_r (onset a)
        (add_scalar (onset b) (real_of_int (sum_list (butlast last_samps)) / sfreq)) = Inr on2"
      "np_r (duration a) (duration b) = Inr du2"
      "np_r (description a) (description b) = Inr de2"
    and i: "Annotations_init argsort on2 du2 de2
        (map_option (\<lambda>t. Scalar (PyFloat t)) (orig_time a)) = Inr obj"
    by (rule combine_Inr_Some)
  from assms(1) ab have v: "valid_annotations a" "valid_annotations b"
    by (simp_all add: valid_entry_def)
  from v have "valid_array on2"
    using np_r_valid [OF _ _ r(1)] by (simp add: valid_annotations_def add_scalar_valid)
  moreover from v have "valid_array du2"
    using np_r_valid [OF _ _ r(2)] by (simp add: valid_annotations_def)
  moreover from v have "valid_array de2"
    using np_r_valid [OF _ _ r(3)] by (simp add: valid_annotations_def)
  ultimately show ?thesis
    using Annotations_init_valid [OF i] by (simp add: valid_annotations_def)
qed

text \<open>
  Claim C6 (length invariant): whenever construction returns an object, the test
  \<^verbatim>\<open>len(onset) == len(duration) == len(description)\<close> holds of the object's own fields,
  and the same holds of every object that \<^verbatim>\<open>_combine_annotations\<close> returns. The arrays of
  these objects are well formed when the arrays given are, so the lengths are those of
  the stored sequences.
\<close>

theorem length_invariant:
  "(Annotations_init argsort on du de ot = Inr obj \<longrightarrow>
      equal_in_sizes (onset obj) (duration obj) (description obj) = Inr True) \<and>
   (combine_annotations argsort annotations last_samps sfreq = Inr (Some obj') \<longrightarrow>
      equal_in_sizes (onset obj') (duration obj') (description obj') = Inr True) \<and>
   (valid_array on \<and> valid_array du \<and> valid_array de \<and>
    Annotations_init argsort on du de ot = Inr obj \<longrightarrow> valid_annotations obj) \<and>
   (list_all valid_entry [fst annotations, snd annotations] \<and>
    combine_annotations argsort annotations last_samps sfreq = Inr (Some obj') \<longrightarrow>
      valid_annotations obj')"
proof (intro conjI impI)
  assume "Annotations_init argsort on du de ot = Inr obj"
  from Annotations_init_len [OF this]
  show "equal_in_sizes (onset obj) (duration obj) (description obj) = Inr True"
    by (simp add: equal_in_sizes_def)
next
  assume "combine_annotations argsort annotations last_samps sfreq = Inr (Some obj')"
  then obtain on2 du2 de2 ot2 where "Annotations_init argsort on2 du2 de2 ot2 = Inr obj'"
    by (rule combine_Inr_Some)
  from Annotations_init_len [OF this]
  show "equal_in_sizes (onset obj') (duration obj') (description obj') = Inr True"
    by (simp add: equal_in_sizes_def)
next
  assume "valid_array on \<and> valid_array du \<and> valid_array de \<and>
    Annotations_init argsort on du de ot = Inr obj"
  then show "valid_annotations obj"
    using Annotations_init_valid [of argsort on du de ot obj] by (simp add: valid_annotations_def)
next
  assume "list_all valid_entry [fst annotations, snd annotations] \<and>
    combine_annotations argsort annotations last_samps sfreq = Inr (Some obj')"
  then show "valid_annotations obj'"
    using combine_valid by blast
qed

theorem length_invariant_witness:
  "Annotations_init argsort_stable \<lparr>shape = [3], data = [3, 1, 2]\<rparr>
      \<lparr>shape = [3], data = [1 / 2, 1 / 4, 1 / 8]\<rparr>
      \<lparr>shape = [3], data = [''c'', ''a'', ''b'']\<rparr> None =
     Inr \<lparr>onset = \<lparr>shape = [3], data = [1, 2, 3]\<rparr>,
          duration = \<lparr>shape = [3], data = [1 / 4, 1 / 8, 1 / 2]\<rparr>,
          description = \<lparr>shape = [3], data = [''a'', ''b'', ''c'']\<rparr>,
          orig_time = None\<rparr> \<and>
   equal_in_sizes \<lparr>shape = [3], data = [1, 2, 3]\<rparr> \<lparr>shape = [3], data = [1 / 4, 1 / 8, 1 / 2]\<rparr>
      \<lparr>shape = [3], data = [''a'', ''b'', ''c'']\<rparr> = Inr True \<and>
   combine_annotations argsort_stable (Some example_a, Some example_b) [1000, 500] 500 =
     Inr (Some \<lparr>onset = \<lparr>shape = [2], data = [1, 11 / 5]\<rparr>,
                duration = \<lparr>shape = [2], data = [1 / 2, 1 / 10]\<rparr>,
                description = \<lparr>shape = [2], data = [''x'', ''y'']\<rparr>,
                orig_time = None\<rparr>) \<and>
   equal_in_sizes \<lparr>shape = [2], data = [1, 11 / 5]\<rparr> \<lparr>shape = [2], data = [1 / 2, 1 / 10]\<rparr>
      \<lparr>shape = [2], data = [''x'', ''y'']\<rparr> = Inr True \<and>
   valid_array \<lparr>shape = [3], data = [3, 1, 2 :: real]\<rparr> \<and>
   valid_array \<lparr>shape = [3], data = [1 / 2, 1 / 4, 1 / 8 :: real]\<rparr> \<and>
   valid_array \<lparr>shape = [3], data = [''c'', ''a'', ''b'']\<rparr> \<and>
   valid_annotations \<lparr>onset = \<lparr>shape = [3], data = [1, 2, 3]\<rparr>,
          duration = \<lparr>shape = [3], data = [1 / 4, 1 / 8, 1 / 2]\<rparr>,
          description = \<lparr>shape = [3], data = [''a'', ''b'', ''c'']\<rparr>,
          orig_time = None\<rparr> \<and>
   list_all valid_entry [Some example_a, Some example_b] \<and>
   valid_annotations \<lparr>onset = \<lparr>shape = [2], data = [1, 11 / 5]\<rparr>,
                duration = \<lparr>shape = [2], data = [1 / 2, 1 / 10]\<rparr>,
                description = \<lparr>shape = [2], data = [''x'', ''y'']\<rparr>,
                orig_time = None\<rparr>"
proof -
  let ?on = "\<lparr>shape = [3], data = [3, 1, 2 :: real]\<rparr>"
  let ?du = "\<lparr>shape = [3], data = [1 / 2, 1 / 4, 1 / 8 :: real]\<rparr>"
  let ?de = "\<lparr>shape = [3], data = [''c'', ''a'', ''b'']\<rparr>"
  let ?obj = "\<lparr>onset = \<lparr>shape = [3], data = [1, 2, 3]\<rparr>,
          duration = \<lparr>shape = [3], data = [1 / 4, 1 / 8, 1 / 2]\<rparr>,
          description = \<lparr>shape = [3], data = [''a'', ''b'', ''c'']\<rparr>,
          orig_time = None\<rparr>"
  let ?obj' = "\<lparr>onset = \<lparr>shape = [2], data = [1, 11 / 5]\<rparr>,
                duration = \<lparr>shape = [2], data = [1 / 2, 1 / 10]\<rparr>,
                description = \<lparr>shape = [2], data = [''x'', ''y'']\<rparr>,
                orig_time = None\<rparr>"
  note i = example_init and c = example_merge
  have v: "valid_array ?on" "valid_array ?du" "valid_array ?de"
    by (simp_all add: valid_array_def)
  have w: "list_all valid_entry [Some example_a, Some example_b]"
    by (simp add: valid_entry_def valid_annotations_def valid_array_def example_a_def
        example_b_def)
  note t = length_invariant [of argsort_stable ?on ?du ?de None ?obj
      "(Some example_a, Some example_b)" "[1000, 500]" 500 ?obj']
  from t i have e1: "equal_in_sizes \<lparr>shape = [3], data = [1, 2, 3]\<rparr>
      \<lparr>shape = [3], data = [1 / 4, 1 / 8, 1 / 2]\<rparr> \<lparr>shape = [3], data = [''a'', ''b'', ''c'']\<rparr> =
      Inr True"
    unfolding Annotations.select_convs by blast
  from t c have e2: "equal_in_sizes \<lparr>shape = [2], data = [1, 11 / 5]\<rparr>
      \<lparr>shape = [2], data = [1 / 2, 1 / 10]\<rparr> \<lparr>shape = [2], data = [''x'', ''y'']\<rparr> = Inr True"
    unfolding Annotations.select_convs by blast
  from t i v have v1: "valid_annotations ?obj" by blast
  from t c w have v2: "valid_annotations ?obj'"
    unfolding fst_conv snd_conv by blast
  from i c e1 e2 v w v1 v2 show ?thesis by blast
qed

text \<open>
  Claim C7 (sorting invariant): for well-formed input arrays, and an \<^verbatim>\<open>argsort\<close> that
  keeps numpy's promise, the onsets of a constructed object are in non-decreasing order,
  and so are the onsets of every object that \<^verbatim>\<open>_combine_annotations\<close> returns.
\<close>

theorem sorting_invariant:
  assumes "\<And>xs. sorting_order (argsort xs) xs"
  shows "(valid_array on \<and> Annotations_init argsort on du de ot = Inr obj \<longrightarrow>
            sorted (data (onset obj))) \<and>
         (list_all valid_entry [fst annotations, snd annotations] \<and>
          combine_annotations argsort annotations last_samps sfreq = Inr (Some obj') \<longrightarrow>
            sorted (data (onset obj')))"
proof (intro conjI impI; elim conjE)
  assume "valid_array on" "Annotations_init argsort on du de ot = Inr obj"
  from Annotations_init_sorted(2) [OF this(2,1) assms]
  show "sorted (data (onset obj))" .
next
  assume v: "list_all valid_entry [fst annotations, snd annotations]"
    and c: "combine_annotations argsort annotations last_samps sfreq = Inr (Some obj')"
  from c obtain a b on2 du2 de2 where ab: "annotations = (Some a, Some b)"
    and r: "np_r (onset a)
        (add_scalar (onset b) (real_of_int (sum_list (butlast last_samps)) / sfreq)) = Inr on2"
    and i: "Annotations_init argsort on2 du2 de2
        (map_option (\<lambda>t. Scalar (PyFloat t)) (orig_time a)) = Inr obj'"
    by (rule combine_Inr_Some)
  from v ab have "valid_array (onset a)" "valid_array (onset b)"
    by (simp_all add: valid_entry_def valid_annotations_def)
  then have "valid_array on2"
    using np_r_valid [OF _ _ r] by (simp add: add_scalar_valid)
  from Annotations_init_sorted(2) [OF i this assms]
  show "sorted (data (onset obj'))" .
qed

theorem sorting_invariant_witness:
  "valid_array \<lparr>shape = [3], data = [3, 1, 2 :: real]\<rparr> \<and>
   Annotations_init argsort_stable \<lparr>shape = [3], data = [3, 1, 2]\<rparr>
      \<lparr>shape = [3], data = [1 / 2, 1 / 4, 1 / 8]\<rparr>
      \<lparr>shape = [3], data = [''c'', ''a'', ''b'']\<rparr> None =
     Inr \<lparr>onset = \<lparr>shape = [3], data = [1, 2, 3]\<rparr>,
          duration = \<lparr>shape = [3], data = [1 / 4, 1 / 8, 1 / 2]\<rparr>,
          description = \<lparr>shape = [3], data = [''a'', ''b'', ''c'']\<rparr>,
          orig_time = None\<rparr> \<and>
   sorted [1, 2, 3 :: real] \<and>
   list_all valid_entry [Some example_a, Some example_b] \<and>
   combine_annotations argsort_stable (Some example_a, Some example_b) [1000, 500] 500 =
     Inr (Some \<lparr>onset = \<lparr>shape = [2], data = [1, 11 / 5]\<rparr>,
                duration = \<lparr>shape = [2], data = [1 / 2, 1 / 10]\<rparr>,
                description = \<lparr>shape = [2], data = [''x'', ''y'']\<rparr>,
                orig_time = None\<rparr>) \<and>
   sorted [1, 11 / 5 :: real]"
proof -
  let ?obj = "\<lparr>onset = \<lparr>shape = [3], data = [1, 2, 3]\<rparr>,
          duration = \<lparr>shape = [3], data = [1 / 4, 1 / 8, 1 / 2]\<rparr>,
          description = \<lparr>shape = [3], data = [''a'', ''b'', ''c'']\<rparr>,
          orig_time = None\<rparr>"
  let ?obj' = "\<lparr>onset = \<lparr>shape = [2], data = [1, 11 / 5]\<rparr>,
                duration = \<lparr>shape = [2], data = [1 / 2, 1 / 10]\<rparr>,
                description = \<lparr>shape = [2], data = [''x'', ''y'']\<rparr>,
                orig_time = None\<rparr>"
  have v1: "valid_array \<lparr>shape = [3], data = [3, 1, 2 :: real]\<rparr>"
    by (simp add: valid_array_def)
  have v2: "list_all valid_entry [Some example_a, Some example_b]"
    by (simp add: valid_entry_def valid_annotations_def valid_array_def example_a_def
        example_b_def)
  note i = example_init and c = example_merge
  from sorting_invariant [of argsort_stable "\<lparr>shape = [3], data = [3, 1, 2]\<rparr>"
      "\<lparr>shape = [3], data = [1 / 2, 1 / 4, 1 / 8]\<rparr>"
      "\<lparr>shape = [3], data = [''c'', ''a'', ''b'']\<rparr>" None ?obj
      "(Some example_a, Some example_b)" "[1000, 500]" 500 ?obj',
      OF argsort_stable_sorting] v1 v2 i c
  show ?thesis by simp
qed

section \<open>The order of the entries\<close>

lemma Annotations_init_entries:
  assumes i: "Annotations_init argsort on du de ot = Inr obj"
    and v: "valid_array on" "valid_array du" "valid_array de"
    and d: "ndim de = 1"
  shows "entries (onset obj) (duration obj) (description obj) =
           map (\<lambda>i. entries on du de ! i) (argsort (data on))"
    and "entries (onset obj) (duration obj) (description obj) =
           map (\<lambda>i. (data on ! i, data du ! i, data de ! i)) (argsort (data on))"
proof -
  let ?order = "argsort (data on)"
  from i obtain n rest where s: "shape on = [n]" "shape du = [n]" "shape de = n # rest"
    "list_all (\<lambda>i. i < n) ?order"
    by (rule Annotations_init_Inr_shapes)
  from d s(3) have de: "shape de = [n]" by (simp add: ndim_def)
  from s(1,2) de v have l: "length (data on) = n" "length (data du) = n" "length (data de) = n"
    by (simp_all add: valid_array_def)
  from s(4) l have b: "list_all (\<lambda>i. i < length (data on)) ?order"
    "list_all (\<lambda>i. i < length (data du)) ?order" "list_all (\<lambda>i. i < length (data de)) ?order"
    by simp_all
  from Annotations_init_ok [where argsort = argsort and ot = ot, OF s] i
  have o: "data (onset obj) = concat (map (row on) ?order)"
    "data (duration obj) = concat (map (row du) ?order)"
    "data (description obj) = concat (map (row de) ?order)"
    by auto
  show e: "entries (onset obj) (duration obj) (description obj) =
      map (\<lambda>i. (data on ! i, data du ! i, data de ! i)) ?order"
    unfolding entries_def o concat_rows_1d [OF s(1) b(1)] concat_rows_1d [OF s(2) b(2)]
      concat_rows_1d [OF de b(3)]
    by (simp add: zip_map_map zip_same_conv_map)
  have "map (\<lambda>i. (data on ! i, data du ! i, data de ! i)) ?order =
      map (\<lambda>i. entries on du de ! i) ?order"
  proof (rule map_cong [OF refl])
    fix i assume "i \<in> set ?order"
    with s(4) have "i < n" by (simp add: list_all_iff)
    with l show "(data on ! i, data du ! i, data de ! i) = entries on du de ! i"
      by (simp add: entries_def)
  qed
  with e show "entries (onset obj) (duration obj) (description obj) =
      map (\<lambda>i. entries on du de ! i) ?order" by simp
qed

lemma mset_map_nth_sorting_order:
  assumes "sorting_order order xs" "length es = length xs"
  shows "mset (map (\<lambda>i. es ! i) order) = mset es"
proof -
  have "mset (map (\<lambda>i. es ! i) order) = image_mset (\<lambda>i. es ! i) (mset order)" by simp
  also have "\<dots> = image_mset (\<lambda>i. es ! i) (mset [0..<length es])"
    by (simp only: sorting_order_mset [OF assms(1)] assms(2))
  also have "\<dots> = mset (map (\<lambda>i. es ! i) [0..<length es])" by (simp only: mset_map)
  also have "\<dots> = mset es" by (simp only: map_nth)
  finally show ?thesis .
qed

lemma Annotations_init_rearranges:
  assumes "Annotations_init argsort on du de ot = Inr obj"
    and "sorting_order (argsort (data on)) (data on)"
    and "valid_array on" "valid_array du" "valid_array de" "ndim de = 1"
  shows "entries (onset obj) (duration obj) (description obj) =
           map (\<lambda>i. entries on du de ! i) (argsort (data on)) \<and>
         mset (entries (onset obj) (duration obj) (description obj)) = mset (entries on du de) \<and>
         sorted (map fst (entries (onset obj) (duration obj) (description obj)))"
proof -
  let ?order = "argsort (data on)"
  note e = Annotations_init_entries(1) [OF assms(1,3,4,5,6)]
  note e' = Annotations_init_entries(2) [OF assms(1,3,4,5,6)]
  from assms(1) obtain n rest where s: "shape on = [n]" "shape du = [n]" "shape de = n # rest"
    "list_all (\<lambda>i. i < n) ?order"
    by (rule Annotations_init_Inr_shapes)
  from assms(6) s(3) have de: "shape de = [n]" by (simp add: ndim_def)
  from s(1,2) de assms(3,4,5)
  have "length (data on) = n" "length (data du) = n" "length (data de) = n"
    by (simp_all add: valid_array_def)
  then have le: "length (entries on du de) = length (data on)" by (simp add: entries_def)
  have m: "mset (entries (onset obj) (duration obj) (description obj)) = mset (entries on du de)"
    unfolding e by (rule mset_map_nth_sorting_order [OF assms(2) le])
  have "map fst (map (\<lambda>i. (data on ! i, data du ! i, data de ! i)) ?order) =
      map (\<lambda>i. data on ! i) ?order"
    by simp
  with assms(2)
  have "sorted (map fst (entries (onset obj) (duration obj) (description obj)))"
    unfolding e' by (simp add: sorting_order_def comp_def)
  with e m show ?thesis by simp
qed


text \<open>
  Claim C3 (stable construction), as the code has it: construction rearranges the three
  sequences by the one index order that \<^verbatim>\<open>argsort\<close> returns for the onsets. Every entry
  keeps its own onset, duration and description, the entries come out in non-decreasing
  onset order, and none is lost or duplicated. What the order of entries with equal
  onsets is, the index order decides.
\<close>

theorem construction_applies_one_sorting_order:
  assumes "Annotations_init argsort on du de ot = Inr obj"
    and "sorting_order (argsort (data on)) (data on)"
    and "valid_array on" "valid_array du" "valid_array de" "ndim de = 1"
  shows "entries (onset obj) (duration obj) (description obj) =
           map (\<lambda>i. entries on du de ! i) (argsort (data on)) \<and>
         mset (entries (onset obj) (duration obj) (description obj)) = mset (entries on du de) \<and>
         sorted (map fst (entries (onset obj) (duration obj) (description obj)))"
  using assms by (rule Annotations_init_rearranges)

lemma example_ties_init:
  "Annotations_init argsort_stable \<lparr>shape = [3], data = [2, 1, 2]\<rparr>
      \<lparr>shape = [3], data = [1 / 2, 1 / 4, 1 / 8]\<rparr>
      \<lparr>shape = [3], data = [''a'', ''b'', ''c'']\<rparr> None =
     Inr \<lparr>onset = \<lparr>shape = [3], data = [1, 2, 2]\<rparr>,
          duration = \<lparr>shape = [3], data = [1 / 4, 1 / 2, 1 / 8]\<rparr>,
          description = \<lparr>shape = [3], data = [''b'', ''a'', ''c'']\<rparr>,
          orig_time = None\<rparr>"
  by (simp add: Annotations_init_def ndim_def equal_in_sizes_def
      len_def take_rows_def row_def argsort_stable_def init_orig_time_def Let_def)

theorem construction_applies_one_sorting_order_witness:
  "Annotations_init argsort_stable \<lparr>shape = [3], data = [2, 1, 2]\<rparr>
      \<lparr>shape = [3], data = [1 / 2, 1 / 4, 1 / 8]\<rparr>
      \<lparr>shape = [3], data = [''a'', ''b'', ''c'']\<rparr> None =
     Inr \<lparr>onset = \<lparr>shape = [3], data = [1, 2, 2]\<rparr>,
          duration = \<lparr>shape = [3], data = [1 / 4, 1 / 2, 1 / 8]\<rparr>,
          description = \<lparr>shape = [3], data = [''b'', ''a'', ''c'']\<rparr>,
          orig_time = None\<rparr> \<and>
   sorting_order (argsort_stable [2, 1, 2]) [2, 1, 2] \<and>
   argsort_stable [2, 1, 2] = [1, 0, 2] \<and>
   valid_array \<lparr>shape = [3], data = [2, 1, 2 :: real]\<rparr> \<and>
   valid_array \<lparr>shape = [3], data = [1 / 2, 1 / 4, 1 / 8 :: real]\<rparr> \<and>
   valid_array \<lparr>shape = [3], data = [''a'', ''b'', ''c'']\<rparr> \<and>
   ndim \<lparr>shape = [3], data = [''a'', ''b'', ''c'']\<rparr> = 1 \<and>
   mset (entries \<lparr>shape = [3], data = [1, 2, 2]\<rparr> \<lparr>shape = [3], data = [1 / 4, 1 / 2, 1 / 8]\<rparr>
      \<lparr>shape = [3], data = [''b'', ''a'', ''c'']\<rparr>) =
     mset (entries \<lparr>shape = [3], data = [2, 1, 2]\<rparr> \<lparr>shape = [3], data = [1 / 2, 1 / 4, 1 / 8]\<rparr>
       \<lparr>shape = [3], data = [''a'', ''b'', ''c'']\<rparr>) \<and>
   sorted (map fst (entries \<lparr>shape = [3], data = [1, 2, 2]\<rparr>
      \<lparr>shape = [3], data = [1 / 4, 1 / 2, 1 / 8]\<rparr> \<lparr>shape = [3], data = [''b'', ''a'', ''c'']\<rparr>)) \<and>
   entries \<lparr>shape = [3], data = [1, 2, 2]\<rparr> \<lparr>shape = [3], data = [1 / 4, 1 / 2, 1 / 8]\<rparr>
      \<lparr>shape = [3], data = [''b'', ''a'', ''c'']\<rparr> =
     [(1, 1 / 4, ''b''), (2, 1 / 2, ''a''), (2, 1 / 8, ''c'')]"
proof -
  let ?on = "\<lparr>shape = [3], data = [2, 1, 2 :: real]\<rparr>"
  let ?du = "\<lparr>shape = [3], data = [1 / 2, 1 / 4, 1 / 8 :: real]\<rparr>"
  let ?de = "\<lparr>shape = [3], data = [''a'', ''b'', ''c'']\<rparr>"
  have v: "valid_array ?on" "valid_array ?du" "valid_array ?de"
    by (simp_all add: valid_array_def)
  have d: "ndim ?de = 1"
    by (simp add: ndim_def)
  have s: "sorting_order (argsort_stable (data ?on)) (data ?on)"
    by (rule argsort_stable_sorting)
  then have s': "sorting_order (argsort_stable [2, 1, 2]) [2, 1, 2]"
    by simp
  have o: "argsort_stable [2, 1, 2] = [1, 0, 2]"
    by (simp add: argsort_stable_def)
  have e: "entries \<lparr>shape = [3], data = [1, 2, 2]\<rparr> \<lparr>shape = [3], data = [1 / 4, 1 / 2, 1 / 8]\<rparr>
      \<lparr>shape = [3], data = [''b'', ''a'', ''c'']\<rparr> =
     [(1, 1 / 4, ''b''), (2, 1 / 2, ''a''), (2, 1 / 8, ''c'')]"
    by (simp add: entries_def)
  note c = construction_applies_one_sorting_order [OF example_ties_init s v d]
  from c have m: "mset (entries \<lparr>shape = [3], data = [1, 2, 2]\<rparr>
      \<lparr>shape = [3], data = [1 / 4, 1 / 2, 1 / 8]\<rparr> \<lparr>shape = [3], data = [''b'', ''a'', ''c'']\<rparr>) =
     mset (entries ?on ?du ?de)"
    unfolding Annotations.select_convs by (elim conjE)
  from c have t: "sorted (map fst (entries \<lparr>shape = [3], data = [1, 2, 2]\<rparr>
      \<lparr>shape = [3], data = [1 / 4, 1 / 2, 1 / 8]\<rparr> \<lparr>shape = [3], data = [''b'', ''a'', ''c'']\<rparr>))"
    unfolding Annotations.select_convs by (elim conjE)
  from example_ties_init s' o v d m t e show ?thesis by blast
qed

text \<open>
  Claim C3 as stated fails for the onsets \<open>[2, 1, 0, 0]\<close>. numpy's default \<^verbatim>\<open>argsort\<close>
  returns the index order \<open>[3, 2, 1, 0]\<close> for them, which sorts the onsets but takes
  the two entries with onset 0 in the opposite order: in the input \<open>c\<close> stands before
  \<open>d\<close>, in the constructed object \<open>d\<close> stands before \<open>c\<close>, with its duration.
\<close>

theorem equal_onsets_change_order:
  "argsort_ties_reversed [2, 1, 0, 0] = [3, 2, 1, 0] \<and>
   sorting_order [3, 2, 1, 0] [2, 1, 0, 0] \<and>
   Annotations_init argsort_ties_reversed \<lparr>shape = [4], data = [2, 1, 0, 0]\<rparr>
      \<lparr>shape = [4], data = [1 / 2, 1 / 4, 1 / 8, 1 / 16]\<rparr>
      \<lparr>shape = [4], data = [''a'', ''b'', ''c'', ''d'']\<rparr> None =
     Inr \<lparr>onset = \<lparr>shape = [4], data = [0, 0, 1, 2]\<rparr>,
          duration = \<lparr>shape = [4], data = [1 / 16, 1 / 8, 1 / 4, 1 / 2]\<rparr>,
          description = \<lparr>shape = [4], data = [''d'', ''c'', ''b'', ''a'']\<rparr>,
          orig_time = None\<rparr>"
  by (simp add: Annotations_init_def ndim_def equal_in_sizes_def sorting_order_def
      len_def take_rows_def row_def argsort_ties_reversed_def init_orig_time_def Let_def)

section \<open>Merging two sets\<close>

lemma sorting_order_two:
  assumes "sorting_order order [x, y]" "x < y"
  shows "order = [0, 1]"
proof -
  from assms(1) have l: "length order = 2" by (simp add: sorting_order_def)
  then obtain i j where o: "order = [i, j]"
    by (auto simp: length_Suc_conv numeral_2_eq_2)
  from assms(1) o have "i < 2" "j < 2" "i \<noteq> j" "[x, y] ! i \<le> [x, y] ! j"
    by (simp_all add: sorting_order_def)
  with assms(2) have "i = 0 \<and> j = 1"
    by (cases i; cases j) (auto simp: less_Suc_eq numeral_2_eq_2)
  with o show ?thesis by simp
qed

lemma init_orig_time_stored:
  "init_orig_time (map_option (\<lambda>t. Scalar (PyFloat t)) ot) = ot"
  by (cases ot) (simp_all add: init_orig_time_def)

lemma Annotations_init_orig_time:
  assumes "Annotations_init argsort on du de ot = Inr obj"
  shows "orig_time obj = init_orig_time ot"
proof -
  from assms obtain n rest where s: "shape on = [n]" "shape du = [n]" "shape de = n # rest"
    "list_all (\<lambda>i. i < n) (argsort (data on))"
    by (rule Annotations_init_Inr_shapes)
  from Annotations_init_ok [where argsort = argsort and ot = ot, OF s] assms
  show ?thesis by auto
qed

lemma np_r_1d:
  assumes "shape x = [n]" "shape y = [m]"
  shows "np_r x y = Inr \<lparr>shape = [n + m], data = data x @ data y\<rparr>"
  using assms by (simp add: np_r_def)

lemma combine_relative:
  assumes "orig_time b = None" "sfreq \<noteq> 0"
    and "np_r (onset a) (add_scalar (onset b) (real_of_int (sum_list (butlast last_samps)) / sfreq))
           = Inr on2"
    and "np_r (duration a) (duration b) = Inr du2"
    and "np_r (description a) (description b) = Inr de2"
  shows "combine_annotations argsort (Some a, Some b) last_samps sfreq =
     map_sum id Some (Annotations_init argsort on2 du2 de2
        (map_option (\<lambda>t. Scalar (PyFloat t)) (orig_time a)))"
  using assms
  by (simp add: combine_annotations_def truthy_def shift_seconds_def np_r_value_def)

lemma entries_append:
  assumes "length (data (on1 :: real ndarray)) = length (data (du1 :: real ndarray))"
    "length (data du1) = length (data (de1 :: string ndarray))"
  shows "entries \<lparr>shape = sh1, data = data on1 @ xs\<rparr> \<lparr>shape = sh2, data = data du1 @ ys\<rparr>
            \<lparr>shape = sh3, data = data de1 @ zs\<rparr> =
         entries on1 du1 de1 @ zip xs (zip ys zs)"
  using assms by (simp add: entries_def)

lemma zip_shift:
  "zip (map (\<lambda>x. x + c) xs) (zip ys zs) = map (\<lambda>(t, d, l). (t + c, d, l)) (zip xs (zip ys zs))"
  by (simp add: zip_map1 split_def)

lemma combine_relative_result:
  fixes a b :: Annotations and last_samps :: "int list" and sfreq :: real
  assumes contract: "\<And>xs. sorting_order (argsort xs) xs"
    and ot: "orig_time b = None" and sf: "0 < sfreq"
    and sa: "shape (onset a) = [n]" "shape (duration a) = [n]" "shape (description a) = [n]"
    and sb: "shape (onset b) = [m]" "shape (duration b) = [m]" "shape (description b) = [m]"
    and va: "valid_annotations a" and vb: "valid_annotations b"
  defines "s \<equiv> real_of_int (sum_list (butlast last_samps)) / sfreq"
  defines "merged \<equiv> entries (onset a) (duration a) (description a) @
     map (\<lambda>(t, d, l). (t + s, d, l)) (entries (onset b) (duration b) (description b))"
  shows "\<exists>obj. combine_annotations argsort (Some a, Some b) last_samps sfreq = Inr (Some obj) \<and>
     entries (onset obj) (duration obj) (description obj) =
       map (\<lambda>i. merged ! i) (argsort (map fst merged)) \<and>
     mset (entries (onset obj) (duration obj) (description obj)) = mset merged \<and>
     sorted (map fst (entries (onset obj) (duration obj) (description obj))) \<and>
     orig_time obj = orig_time a"
proof -
  let ?on2 = "\<lparr>shape = [n + m], data = data (onset a) @ map (\<lambda>x. x + s) (data (onset b))\<rparr>"
  let ?du2 = "\<lparr>shape = [n + m], data = data (duration a) @ data (duration b)\<rparr>"
  let ?de2 = "\<lparr>shape = [n + m], data = data (description a) @ data (description b)\<rparr>"
  let ?ot = "map_option (\<lambda>t. Scalar (PyFloat t)) (orig_time a)"
  from sa va have la: "length (data (onset a)) = n" "length (data (duration a)) = n"
    "length (data (description a)) = n"
    by (simp_all add: valid_annotations_def valid_array_def)
  from sb vb have lb: "length (data (onset b)) = m" "length (data (duration b)) = m"
    "length (data (description b)) = m"
    by (simp_all add: valid_annotations_def valid_array_def)
  from sb(1) have "shape (add_scalar (onset b) s) = [m]" by (simp add: add_scalar_def)
  from np_r_1d [OF sa(1) this]
  have r1: "np_r (onset a) (add_scalar (onset b) s) = Inr ?on2" by (simp add: add_scalar_def)
  have r2: "np_r (duration a) (duration b) = Inr ?du2" by (rule np_r_1d [OF sa(2) sb(2)])
  have r3: "np_r (description a) (description b) = Inr ?de2" by (rule np_r_1d [OF sa(3) sb(3)])
  from sf have sf': "sfreq \<noteq> 0" by simp
  have c: "combine_annotations argsort (Some a, Some b) last_samps sfreq =
      map_sum id Some (Annotations_init argsort ?on2 ?du2 ?de2 ?ot)"
    by (rule combine_relative [OF ot sf' r1 [unfolded s_def] r2 r3, folded s_def])
  have v: "valid_array ?on2" "valid_array ?du2" "valid_array ?de2"
    using la lb by (simp_all add: valid_array_def)
  have so: "sorting_order (argsort (data ?on2)) (data ?on2)" by (rule contract)
  then have "list_all (\<lambda>i. i < n + m) (argsort (data ?on2))"
    using la(1) lb(1) by (simp add: sorting_order_def)
  from Annotations_init_ok [where argsort = argsort and ot = ?ot and on = ?on2 and du = ?du2
      and de = ?de2 and n = "n + m" and rest = "[]", OF _ _ _ this]
  obtain obj where i: "Annotations_init argsort ?on2 ?du2 ?de2 ?ot = Inr obj" by simp
  have d: "ndim ?de2 = 1" by (simp add: ndim_def)
  note r = Annotations_init_rearranges [OF i so v d]
  have e: "entries ?on2 ?du2 ?de2 = merged"
    unfolding merged_def
    using entries_append [of "onset a" "duration a" "description a" "[n + m]"
        "map (\<lambda>x. x + s) (data (onset b))" "[n + m]" "data (duration b)" "[n + m]"
        "data (description b)"] la
    by (simp add: zip_shift) (simp add: entries_def)
  have "map fst (entries ?on2 ?du2 ?de2) = data ?on2"
    using la lb by (simp add: entries_def)
  then have f: "data ?on2 = map fst merged" unfolding e by simp
  have o: "orig_time obj = orig_time a"
    using Annotations_init_orig_time [OF i] by (simp add: init_orig_time_stored)
  from c i have "combine_annotations argsort (Some a, Some b) last_samps sfreq = Inr (Some obj)"
    by simp
  with r o show ?thesis unfolding e f by blast
qed

lemma example_merge_any_argsort:
  assumes "\<And>xs. sorting_order (argsort xs) xs"
  shows "combine_annotations argsort (Some example_a, Some example_b) [1000, 500] 500 =
     Inr (Some \<lparr>onset = \<lparr>shape = [2], data = [1, 11 / 5]\<rparr>,
                duration = \<lparr>shape = [2], data = [1 / 2, 1 / 10]\<rparr>,
                description = \<lparr>shape = [2], data = [''x'', ''y'']\<rparr>,
                orig_time = None\<rparr>)"
proof -
  have "argsort [1, 11 / 5] = [0, 1]"
    by (rule sorting_order_two [OF assms]) simp
  then show ?thesis
    by (simp add: combine_annotations_def truthy_def example_a_def example_b_def shift_seconds_def
      add_scalar_def np_r_value_def np_r_def Annotations_init_def ndim_def equal_in_sizes_def
      len_def take_rows_def row_def init_orig_time_def Let_def)
qed

text \<open>
  Claim C4 (offset merge): when both sets are present and the second has no origin time,
  \<^verbatim>\<open>_combine_annotations\<close> adds \<^verbatim>\<open>sum(last_samps[:-1]) / sfreq\<close> to each onset of the second
  set, appends the second set's entries to the first's, sorts them by onset through the
  constructor, and gives the result the first set's origin time. For the two sets of the
  example, sample counts \<open>[1000, 500]\<close> and sampling frequency \<open>500.0\<close>, the merged
  onsets are \<open>[1.0, 2.2]\<close> and the descriptions \<open>["x", "y"]\<close>.
\<close>

theorem combine_shifts_and_merges:
  fixes a b :: Annotations and last_samps :: "int list" and sfreq :: real
  assumes "\<And>xs. sorting_order (argsort xs) xs"
    and "orig_time b = None" and "0 < sfreq"
    and "shape (onset a) = [n]" "shape (duration a) = [n]" "shape (description a) = [n]"
    and "shape (onset b) = [m]" "shape (duration b) = [m]" "shape (description b) = [m]"
    and "valid_annotations a" and "valid_annotations b"
  defines "s \<equiv> real_of_int (sum_list (butlast last_samps)) / sfreq"
  defines "merged \<equiv> entries (onset a) (duration a) (description a) @
     map (\<lambda>(t, d, l). (t + s, d, l)) (entries (onset b) (duration b) (description b))"
  shows "(\<exists>obj. combine_annotations argsort (Some a, Some b) last_samps sfreq = Inr (Some obj) \<and>
     entries (onset obj) (duration obj) (description obj) =
       map (\<lambda>i. merged ! i) (argsort (map fst merged)) \<and>
     mset (entries (onset obj) (duration obj) (description obj)) = mset merged \<and>
     sorted (map fst (entries (onset obj) (duration obj) (description obj))) \<and>
     orig_time obj = orig_time a) \<and>
   combine_annotations argsort (Some example_a, Some example_b) [1000, 500] 500 =
     Inr (Some \<lparr>onset = \<lparr>shape = [2], data = [1, 11 / 5]\<rparr>,
                duration = \<lparr>shape = [2], data = [1 / 2, 1 / 10]\<rparr>,
                description = \<lparr>shape = [2], data = [''x'', ''y'']\<rparr>,
                orig_time = None\<rparr>)"
  unfolding s_def merged_def
  using combine_relative_result [OF assms(1-11)] example_merge_any_argsort [OF assms(1)]
  by (rule conjI)

theorem combine_shifts_and_merges_witness:
  "orig_time example_b = None \<and> (0 :: real) < 500 \<and>
   shape (onset example_a) = [1] \<and> shape (duration example_a) = [1] \<and>
   shape (description example_a) = [1] \<and>
   shape (onset example_b) = [1] \<and> shape (duration example_b) = [1] \<and>
   shape (description example_b) = [1] \<and>
   valid_annotations example_a \<and> valid_annotations example_b \<and>
   real_of_int (sum_list (butlast [1000, 500])) / 500 = 2 \<and>
   combine_annotations argsort_stable (Some example_a, Some example_b) [1000, 500] 500 =
     Inr (Some \<lparr>onset = \<lparr>shape = [2], data = [1, 11 / 5]\<rparr>,
                duration = \<lparr>shape = [2], data = [1 / 2, 1 / 10]\<rparr>,
                description = \<lparr>shape = [2], data = [''x'', ''y'']\<rparr>,
                orig_time = None\<rparr>) \<and>
   entries \<lparr>shape = [2], data = [1, 11 / 5]\<rparr> \<lparr>shape = [2], data = [1 / 2, 1 / 10]\<rparr>
      \<lparr>shape = [2], data = [''x'', ''y'']\<rparr> =
     entries (onset example_a) (duration example_a) (description example_a) @
     map (\<lambda>(t, d, l). (t + 2, d, l))
       (entries (onset example_b) (duration example_b) (description example_b))"
proof -
  have h: "orig_time example_b = None" "(0 :: real) < 500"
    "shape (onset example_a) = [1]" "shape (duration example_a) = [1]"
    "shape (description example_a) = [1]"
    "shape (onset example_b) = [1]" "shape (duration example_b) = [1]"
    "shape (description example_b) = [1]"
    "valid_annotations example_a" "valid_annotations example_b"
    by (simp_all add: example_a_def example_b_def valid_annotations_def valid_array_def)
  have s: "real_of_int (sum_list (butlast [1000, 500])) / 500 = 2" by simp
  note t = combine_shifts_and_merges [of argsort_stable example_b 500 example_a 1 1 "[1000, 500]",
      OF argsort_stable_sorting h]
  have e: "entries \<lparr>shape = [2], data = [1, 11 / 5]\<rparr> \<lparr>shape = [2], data = [1 / 2, 1 / 10]\<rparr>
      \<lparr>shape = [2], data = [''x'', ''y'']\<rparr> =
     entries (onset example_a) (duration example_a) (description example_a) @
     map (\<lambda>(t, d, l). (t + 2, d, l))
       (entries (onset example_b) (duration example_b) (description example_b))"
    by (simp add: entries_def example_a_def example_b_def)
  from t have c: "combine_annotations argsort_stable (Some example_a, Some example_b) [1000, 500] 500 =
     Inr (Some \<lparr>onset = \<lparr>shape = [2], data = [1, 11 / 5]\<rparr>,
                duration = \<lparr>shape = [2], data = [1 / 2, 1 / 10]\<rparr>,
                description = \<lparr>shape = [2], data = [''x'', ''y'']\<rparr>,
                orig_time = None\<rparr>)"
    by (elim conjE)
  from h s c e show ?thesis by blast
qed

section \<open>Errors\<close>

lemma Annotations_init_onset_error:
  assumes "ndim on \<noteq> 1"
  shows "Annotations_init argsort on du de ot =
           Inl (ValueError ''Onset must be a one dimensional array.'')"
  using assms by (simp add: Annotations_init_def)

lemma Annotations_init_duration_error:
  assumes "ndim on = 1" "ndim du \<noteq> 1"
  shows "Annotations_init argsort on du de ot =
           Inl (ValueError ''Duration must be a one dimensional array.'')"
  using assms by (simp add: Annotations_init_def)

lemma Annotations_init_sizes_error:
  assumes "shape on = [n]" "shape du = [m]" "shape de = k # rest" "n \<noteq> m \<or> m \<noteq> k"
  shows "Annotations_init argsort on du de ot =
           Inl (ValueError ''Onset, duration and description must be equal in sizes.'')"
  using assms by (auto simp: Annotations_init_def ndim_def equal_in_sizes_def len_def)

lemma Annotations_init_cases:
  assumes "shape de \<noteq> []" "valid_array on" "sorting_order (argsort (data on)) (data on)"
  shows "(ndim on \<noteq> 1 \<and> Annotations_init argsort on du de ot =
            Inl (ValueError ''Onset must be a one dimensional array.'')) \<or>
         (ndim on = 1 \<and> ndim du \<noteq> 1 \<and> Annotations_init argsort on du de ot =
            Inl (ValueError ''Duration must be a one dimensional array.'')) \<or>
         (ndim on = 1 \<and> ndim du = 1 \<and> \<not> (len on = len du \<and> len du = len de) \<and>
          Annotations_init argsort on du de ot =
            Inl (ValueError ''Onset, duration and description must be equal in sizes.'')) \<or>
         (ndim on = 1 \<and> ndim du = 1 \<and> len on = len du \<and> len du = len de \<and>
          (\<exists>obj. Annotations_init argsort on du de ot = Inr obj))"
proof (cases "ndim on = 1")
  case False
  then show ?thesis by (simp add: Annotations_init_onset_error)
next
  case on1: True
  show ?thesis
  proof (cases "ndim du = 1")
    case False
    with on1 show ?thesis by (simp add: Annotations_init_duration_error)
  next
    case du1: True
    from on1 du1 obtain n m where s: "shape on = [n]" "shape du = [m]"
      unfolding ndim_1 by blast
    from assms(1) obtain k rest where d: "shape de = k # rest"
      by (cases "shape de") auto
    show ?thesis
    proof (cases "n = m \<and> m = k")
      case False
      then have "n \<noteq> m \<or> m \<noteq> k" by blast
      from Annotations_init_sizes_error [OF s d this] on1 du1 s d False
      show ?thesis by (auto simp: len_def)
    next
      case True
      from s(1) assms(2) have "length (data on) = n" by (simp add: valid_array_def)
      with assms(3) have "list_all (\<lambda>i. i < n) (argsort (data on))"
        by (simp add: sorting_order_def)
      from Annotations_init_ok [where argsort = argsort and ot = ot and du = du and de = de,
          OF s(1) _ _ this] s d True on1 du1
      show ?thesis by (simp add: len_def)
    qed
  qed
qed

lemma Annotations_init_error_iff:
  assumes "shape de \<noteq> []" "valid_array on" "sorting_order (argsort (data on)) (data on)"
  shows "(\<exists>msg. Annotations_init argsort on du de ot = Inl (ValueError msg)) \<longleftrightarrow>
         (ndim on \<noteq> 1 \<or> ndim du \<noteq> 1 \<or> \<not> (len on = len du \<and> len du = len de))"
  using Annotations_init_cases [where argsort = argsort and du = du and ot = ot, OF assms] by auto

lemma Annotations_init_error_kind:
  assumes "shape de \<noteq> []" "valid_array on" "sorting_order (argsort (data on)) (data on)"
    and "Annotations_init argsort on du de ot = Inl e"
  shows "\<exists>msg. e = ValueError msg"
  using Annotations_init_cases [where argsort = argsort and du = du and ot = ot, OF assms(1-3)]
    assms(4) by auto

lemma combine_propagates:
  assumes "orig_time b = None" "0 < sfreq"
    and "np_r (onset a) (add_scalar (onset b) (real_of_int (sum_list (butlast last_samps)) / sfreq))
           = Inr on2"
    and "np_r (duration a) (duration b) = Inr du2"
    and "np_r (description a) (description b) = Inr de2"
    and "Annotations_init argsort on2 du2 de2 (map_option (\<lambda>t. Scalar (PyFloat t)) (orig_time a))
           = Inl e"
  shows "combine_annotations argsort (Some a, Some b) last_samps sfreq = Inl e"
proof -
  from assms(2) have "sfreq \<noteq> 0" by simp
  from combine_relative [OF assms(1) this assms(3-5)] assms(6) show ?thesis by simp
qed

lemma Annotations_init_3_2_error:
  "\<exists>msg. Annotations_init argsort \<lparr>shape = [3], data = xs\<rparr> du \<lparr>shape = [2], data = zs\<rparr> ot =
     Inl (ValueError msg)"
proof (cases "ndim du = 1")
  case False
  then show ?thesis by (simp add: Annotations_init_duration_error ndim_def)
next
  case True
  then obtain m where "shape du = [m]" unfolding ndim_1 by blast
  then show ?thesis
    by (simp add: Annotations_init_sizes_error [where n = 3 and m = m and k = 2 and rest = "[]"])
qed

text \<open>
  Claim C5 (validation errors): the constructor raises \<^verbatim>\<open>ValueError\<close> exactly under its
  three tests and nothing else (the lemmas above), and \<^verbatim>\<open>_combine_annotations\<close> should
  hand on such errors only. For the two one-entry sets of the example, the second given
  the origin time \<open>5.0\<close>, \<^verbatim>\<open>_combine_annotations\<close> raises, and what it raises is none of
  the three validation errors of the constructor: line 75 hands the second object itself
  to \<^verbatim>\<open>np.r_\<close> (see claim C2), and numpy fails on it.
\<close>

theorem combine_error_beyond_validation:
  "isl (combine_annotations argsort (Some example_a, Some (example_b\<lparr>orig_time := Some 5\<rparr>))
      [1000, 500] 500) \<and>
   combine_annotations argsort (Some example_a, Some (example_b\<lparr>orig_time := Some 5\<rparr>))
      [1000, 500] 500 \<noteq> Inl (ValueError ''Onset must be a one dimensional array.'') \<and>
   combine_annotations argsort (Some example_a, Some (example_b\<lparr>orig_time := Some 5\<rparr>))
      [1000, 500] 500 \<noteq> Inl (ValueError ''Duration must be a one dimensional array.'') \<and>
   combine_annotations argsort (Some example_a, Some (example_b\<lparr>orig_time := Some 5\<rparr>))
      [1000, 500] 500 \<noteq>
     Inl (ValueError ''Onset, duration and description must be equal in sizes.'')"
  by (simp add: combine_annotations_def truthy_def np_r_value_def)

section \<open>The origin time\<close>

text \<open>
  Claim C8 (origin-time normalization): the constructor stores a pair of seconds and
  microseconds as seconds plus microseconds divided by 1000000, a scalar as its float,
  and \<^verbatim>\<open>None\<close> as \<^verbatim>\<open>None\<close>.
\<close>

theorem orig_time_normalization:
  assumes "Annotations_init argsort on du de ot = Inr obj"
  shows "(ot = Some (Timestamp_Microseconds s us) \<longrightarrow> orig_time obj = Some (float s + float us / 1000000)) \<and>
         (ot = Some (Scalar x) \<longrightarrow> orig_time obj = Some (float x)) \<and>
         (ot = None \<longrightarrow> orig_time obj = None)"
  using Annotations_init_orig_time [OF assms] by (simp add: init_orig_time_def)

lemma example_init_orig_time:
  "Annotations_init argsort_stable \<lparr>shape = [1], data = [1]\<rparr> \<lparr>shape = [1], data = [1 / 2]\<rparr>
      \<lparr>shape = [1], data = [''x'']\<rparr> ot =
     Inr (example_a\<lparr>orig_time := init_orig_time ot\<rparr>)"
  by (simp add: Annotations_init_def ndim_def equal_in_sizes_def example_a_def
      len_def take_rows_def row_def argsort_stable_def Let_def)

theorem orig_time_normalization_witness:
  "Annotations_init argsort_stable \<lparr>shape = [1], data = [1]\<rparr> \<lparr>shape = [1], data = [1 / 2]\<rparr>
      \<lparr>shape = [1], data = [''x'']\<rparr> (Some (Timestamp_Microseconds (PyInt 5) (PyInt 250000))) =
     Inr (example_a\<lparr>orig_time := Some (21 / 4)\<rparr>) \<and>
   Annotations_init argsort_stable \<lparr>shape = [1], data = [1]\<rparr> \<lparr>shape = [1], data = [1 / 2]\<rparr>
      \<lparr>shape = [1], data = [''x'']\<rparr> (Some (Scalar (PyInt 7))) =
     Inr (example_a\<lparr>orig_time := Some 7\<rparr>) \<and>
   Annotations_init argsort_stable \<lparr>shape = [1], data = [1]\<rparr> \<lparr>shape = [1], data = [1 / 2]\<rparr>
      \<lparr>shape = [1], data = [''x'']\<rparr> None =
     Inr (example_a\<lparr>orig_time := None\<rparr>) \<and>
   orig_time (example_a\<lparr>orig_time := Some (21 / 4)\<rparr>) =
     Some (float (PyInt 5) + float (PyInt 250000) / 1000000) \<and>
   orig_time (example_a\<lparr>orig_time := Some 7\<rparr>) = Some (float (PyInt 7))"
proof -
  let ?on = "\<lparr>shape = [1], data = [1 :: real]\<rparr>"
  let ?du = "\<lparr>shape = [1], data = [1 / 2 :: real]\<rparr>"
  let ?de = "\<lparr>shape = [1], data = [''x'']\<rparr>"
  have i1: "Annotations_init argsort_stable ?on ?du ?de (Some (Timestamp_Microseconds (PyInt 5) (PyInt 250000))) =
      Inr (example_a\<lparr>orig_time := Some (21 / 4)\<rparr>)"
    by (subst example_init_orig_time) (simp add: init_orig_time_def)
  have i2: "Annotations_init argsort_stable ?on ?du ?de (Some (Scalar (PyInt 7))) =
      Inr (example_a\<lparr>orig_time := Some 7\<rparr>)"
    by (subst example_init_orig_time) (simp add: init_orig_time_def)
  have i3: "Annotations_init argsort_stable ?on ?du ?de None =
      Inr (example_a\<lparr>orig_time := None\<rparr>)"
    by (subst example_init_orig_time) (simp add: init_orig_time_def)
  from orig_time_normalization [OF i1, of "PyInt 5" "PyInt 250000"]
  have o1: "orig_time (example_a\<lparr>orig_time := Some (21 / 4)\<rparr>) =
      Some (float (PyInt 5) + float (PyInt 250000) / 1000000)"
    by blast
  from orig_time_normalization [OF i2, of _ _ "PyInt 7"]
  have o2: "orig_time (example_a\<lparr>orig_time := Some 7\<rparr>) = Some (float (PyInt 7))"
    by blast
  from i1 i2 i3 o1 o2 show ?thesis by blast
qed

section \<open>The dimensions of the description\<close>

text \<open>
  Claim C10 (description dimensionality): the constructor never looks at the number of
  dimensions of \<^verbatim>\<open>description\<close>. A description with more than one dimension whose first
  axis is as long as the one-dimensional onset and duration is accepted, and comes out
  with its dimensions, while an onset or a duration with more than one dimension is
  rejected.
\<close>

theorem description_dimension_unchecked:
  assumes "ndim on = 1" "ndim du = 1" "1 < ndim de" "len on = len du" "len du = len de"
    and "valid_array on" "sorting_order (argsort (data on)) (data on)"
  shows "(\<exists>obj. Annotations_init argsort on du de ot = Inr obj \<and>
            ndim (description obj) = ndim de) \<and>
         (1 < ndim on' \<longrightarrow> Annotations_init argsort on' du' de' ot' =
            Inl (ValueError ''Onset must be a one dimensional array.'')) \<and>
         (ndim on' = 1 \<and> 1 < ndim du' \<longrightarrow> Annotations_init argsort on' du' de' ot' =
            Inl (ValueError ''Duration must be a one dimensional array.''))"
proof (intro conjI impI)
  from assms(1,2) obtain n m where s: "shape on = [n]" "shape du = [m]"
    unfolding ndim_1 by blast
  from assms(3) obtain k rest where d: "shape de = k # rest"
    by (cases "shape de") (auto simp: ndim_def)
  from assms(4,5) s d have e: "m = n" "k = n" by (simp_all add: len_def)
  from s(1) assms(6) have "length (data on) = n" by (simp add: valid_array_def)
  with assms(7) have b: "list_all (\<lambda>i. i < n) (argsort (data on))"
    by (simp add: sorting_order_def)
  from Annotations_init_ok [where argsort = argsort and ot = ot and du = du and de = de
      and rest = rest, OF s(1) _ _ b] s d e
  show "\<exists>obj. Annotations_init argsort on du de ot = Inr obj \<and> ndim (description obj) = ndim de"
    by (simp add: ndim_def)
next
  assume "1 < ndim on'"
  then show "Annotations_init argsort on' du' de' ot' =
      Inl (ValueError ''Onset must be a one dimensional array.'')"
    by (simp add: Annotations_init_onset_error)
next
  assume "ndim on' = 1 \<and> 1 < ndim du'"
  then show "Annotations_init argsort on' du' de' ot' =
      Inl (ValueError ''Duration must be a one dimensional array.'')"
    by (simp add: Annotations_init_duration_error)
qed

theorem description_dimension_unchecked_witness:
  "ndim \<lparr>shape = [2], data = [2, 1 :: real]\<rparr> = 1 \<and>
   ndim \<lparr>shape = [2], data = [1 / 2, 1 / 4 :: real]\<rparr> = 1 \<and>
   ndim \<lparr>shape = [2, 2], data = [''a'', ''b'', ''c'', ''d'']\<rparr> = 2 \<and>
   len \<lparr>shape = [2], data = [2, 1 :: real]\<rparr> = Inr 2 \<and>
   len \<lparr>shape = [2], data = [1 / 2, 1 / 4 :: real]\<rparr> = Inr 2 \<and>
   len \<lparr>shape = [2, 2], data = [''a'', ''b'', ''c'', ''d'']\<rparr> = Inr 2 \<and>
   valid_array \<lparr>shape = [2], data = [2, 1 :: real]\<rparr> \<and>
   sorting_order (argsort_stable [2, 1]) [2, 1] \<and>
   Annotations_init argsort_stable \<lparr>shape = [2], data = [2, 1]\<rparr>
      \<lparr>shape = [2], data = [1 / 2, 1 / 4]\<rparr>
      \<lparr>shape = [2, 2], data = [''a'', ''b'', ''c'', ''d'']\<rparr> None =
     Inr \<lparr>onset = \<lparr>shape = [2], data = [1, 2]\<rparr>,
          duration = \<lparr>shape = [2], data = [1 / 4, 1 / 2]\<rparr>,
          description = \<lparr>shape = [2, 2], data = [''c'', ''d'', ''a'', ''b'']\<rparr>,
          orig_time = None\<rparr> \<and>
   (\<exists>obj. Annotations_init argsort_stable \<lparr>shape = [2], data = [2, 1]\<rparr>
      \<lparr>shape = [2], data = [1 / 2, 1 / 4]\<rparr>
      \<lparr>shape = [2, 2], data = [''a'', ''b'', ''c'', ''d'']\<rparr> None = Inr obj \<and>
      ndim (description obj) = ndim \<lparr>shape = [2, 2], data = [''a'', ''b'', ''c'', ''d'']\<rparr>) \<and>
   Annotations_init argsort_stable \<lparr>shape = [2, 2], data = [2, 1, 3, 4]\<rparr>
      \<lparr>shape = [2], data = [1 / 2, 1 / 4]\<rparr>
      \<lparr>shape = [2, 2], data = [''a'', ''b'', ''c'', ''d'']\<rparr> None =
     Inl (ValueError ''Onset must be a one dimensional array.'')"
proof -
  let ?on = "\<lparr>shape = [2], data = [2, 1 :: real]\<rparr>"
  let ?du = "\<lparr>shape = [2], data = [1 / 2, 1 / 4 :: real]\<rparr>"
  let ?de = "\<lparr>shape = [2, 2], data = [''a'', ''b'', ''c'', ''d'']\<rparr>"
  let ?on' = "\<lparr>shape = [2, 2], data = [2, 1, 3, 4 :: real]\<rparr>"
  have d: "ndim ?on = 1" "ndim ?du = 1" "ndim ?de = 2" "ndim ?on' = 2"
    by (simp_all add: ndim_def)
  have l: "len ?on = Inr 2" "len ?du = Inr 2" "len ?de = Inr 2"
    by (simp_all add: len_def)
  have v: "valid_array ?on" by (simp add: valid_array_def)
  have s: "sorting_order (argsort_stable (data ?on)) (data ?on)"
    by (rule argsort_stable_sorting)
  then have s': "sorting_order (argsort_stable [2, 1]) [2, 1]" by simp
  have i: "Annotations_init argsort_stable ?on ?du ?de None =
     Inr \<lparr>onset = \<lparr>shape = [2], data = [1, 2]\<rparr>,
          duration = \<lparr>shape = [2], data = [1 / 4, 1 / 2]\<rparr>,
          description = \<lparr>shape = [2, 2], data = [''c'', ''d'', ''a'', ''b'']\<rparr>,
          orig_time = None\<rparr>"
    by (simp add: Annotations_init_def ndim_def equal_in_sizes_def
        len_def take_rows_def row_def argsort_stable_def init_orig_time_def Let_def)
  have h: "1 < ndim ?de" "len ?on = len ?du" "len ?du = len ?de" "1 < ndim ?on'"
    using d l by simp_all
  note t = description_dimension_unchecked [where argsort = argsort_stable and ot = None
      and on' = ?on' and du' = ?du and de' = ?de and ot' = None,
      OF d(1,2) h(1,2,3) v s]
  from t have e: "\<exists>obj. Annotations_init argsort_stable ?on ?du ?de None = Inr obj \<and>
      ndim (description obj) = ndim ?de"
    by (elim conjE)
  from t h(4) have r: "Annotations_init argsort_stable ?on' ?du ?de None =
      Inl (ValueError ''Onset must be a one dimensional array.'')"
    by blast
  from d(1,2,3) l v s' i e r show ?thesis by blast
qed

section \<open>Serialization and parsing\<close>



lemma encode_head: "\<exists>t ts. encode v = t # ts \<and> t \<noteq> RBracket"
  by (cases v) simp_all

lemma length_encode: "0 < length (encode v)"
  by (cases v) simp_all

lemma decode_bracket:
  assumes "t \<noteq> RBracket"
  shows "decode (Suc n) (LBracket # t # r) = (case decode_elements n (t # r) of
      None \<Rightarrow> None | Some (vs, r') \<Rightarrow> Some (JArray vs, r'))"
  using assms by (cases t) simp_all

lemma decode_elements_separated:
  assumes "vs \<noteq> []"
    and "\<And>v n r. v \<in> set vs \<Longrightarrow> length (encode v) \<le> n \<Longrightarrow> decode n (encode v @ r) = Some (v, r)"
    and "length (separated (map encode vs)) < n"
  shows "decode_elements n (separated (map encode vs) @ RBracket # r) = Some (vs, r)"
  using assms
proof (induction vs arbitrary: n rule: list_nonempty_induct)
  case (single v)
  from single(2) obtain m where n: "n = Suc m" "length (encode v) \<le> m"
    by (cases n) simp_all
  from single(1) [of v m "RBracket # r"] n show ?case by simp
next
  case (cons v ws)
  from cons(1) obtain w ws' where ws: "ws = w # ws'" by (cases ws) auto
  let ?rest = "separated (map encode ws)"
  from cons(4) ws obtain m where n: "n = Suc m"
    and m: "length (encode v) + 1 + length ?rest \<le> m"
    by (cases n) simp_all
  from m have "length (encode v) \<le> m" by simp
  from cons(3) [of v m "Comma # ?rest @ RBracket # r"] this
  have d: "decode m (encode v @ Comma # ?rest @ RBracket # r) =
      Some (v, Comma # ?rest @ RBracket # r)"
    by simp
  from m length_encode [of v] have "length ?rest < m" by simp
  from cons(2) [OF _ this] cons(3)
  have e: "decode_elements m (?rest @ RBracket # r) = Some (ws, r)" by simp
  from d e n ws show ?case by simp
qed

lemma decode_encode:
  "length (encode v) \<le> n \<Longrightarrow> decode n (encode v @ r) = Some (v, r)"
proof (induction v arbitrary: n r)
  case JNull
  then show ?case by (cases n) simp_all
next
  case (JNumber x)
  then show ?case by (cases n) simp_all
next
  case (JString x)
  then show ?case by (cases n) simp_all
next
  case (JArray vs)
  from JArray(2) obtain m where n: "n = Suc m"
    and m: "length (separated (map encode vs)) < m"
    by (cases n) simp_all
  show ?case
  proof (cases "vs = []")
    case True
    with n show ?thesis by simp
  next
    case False
    then obtain v vs' where vs: "vs = v # vs'" by (cases vs) auto
    obtain t ts where t: "encode v = t # ts" "t \<noteq> RBracket"
      using encode_head by blast
    obtain ts' where h: "separated (map encode vs) @ RBracket # r = t # ts'"
      using vs t by (cases vs') simp_all
    have e: "decode_elements m (separated (map encode vs) @ RBracket # r) = Some (vs, r)"
      by (rule decode_elements_separated [OF False JArray(1) m])
    have "decode n (encode (JArray vs) @ r) =
        decode (Suc m) (LBracket # separated (map encode vs) @ RBracket # r)"
      using n by simp
    also have "\<dots> = Some (JArray vs, r)"
      unfolding h decode_bracket [OF t(2)] using e [unfolded h] by simp
    finally show ?thesis .
  qed
qed

lemma decode_items_separated:
  assumes "d \<noteq> []" and "length (separated (map encode_item d)) < n"
  shows "decode_items n (separated (map encode_item d) @ RBrace # r) = Some (d, r)"
  using assms
proof (induction d arbitrary: n rule: list_nonempty_induct)
  case (single kv)
  from single obtain m where n: "n = Suc m" "length (encode (snd kv)) \<le> m"
    by (cases n) (simp_all add: encode_item_def)
  from decode_encode [OF n(2), of "RBrace # r"] n(1) show ?case
    by (simp add: encode_item_def)
next
  case (cons kv d)
  from cons(1) obtain kv' d' where d: "d = kv' # d'" by (cases d) auto
  let ?rest = "separated (map encode_item d)"
  from cons(3) d obtain m where n: "n = Suc m"
    and m: "length (encode_item kv) + 1 + length ?rest \<le> m"
    by (cases n) simp_all
  from m have "length (encode (snd kv)) \<le> m" by (simp add: encode_item_def)
  from decode_encode [OF this, of "Comma # ?rest @ RBrace # r"]
  have v: "decode m (encode (snd kv) @ Comma # ?rest @ RBrace # r) =
      Some (snd kv, Comma # ?rest @ RBrace # r)" .
  from m have "length ?rest < m" by simp
  from cons(2) [OF this] have e: "decode_items m (?rest @ RBrace # r) = Some (d, r)" .
  have "separated (map encode_item (kv # d)) =
      Str (fst kv) # Colon # encode (snd kv) @ Comma # ?rest"
    using d by (simp add: encode_item_def [of kv])
  with v e n show ?case by simp
qed

lemma json_loads_dumps: "json_loads (json_dumps d) = Inr d"
proof (cases d)
  case Nil
  then show ?thesis by (simp add: json_loads_def json_dumps_def)
next
  case (Cons kv d')
  let ?s = "separated (map encode_item d)"
  from Cons obtain ts where h: "?s = Str (fst kv) # ts"
    by (cases d') (simp_all add: encode_item_def)
  have ne: "d \<noteq> []" using Cons by simp
  have "decode_items (length (json_dumps d)) (?s @ RBrace # []) = Some (d, [])"
    by (rule decode_items_separated [OF ne]) (simp add: json_dumps_def)
  then show ?thesis
    unfolding json_loads_def json_dumps_def using h by simp
qed

lemma tolist_1d:
  assumes "shape a = [n]" "valid_array a"
  shows "tolist f a = JArray (map f (data a))"
proof -
  from assms have l: "length (data a) = n" by (simp add: valid_array_def)
  have "map (\<lambda>i. nested f [] (take 1 (drop i (data a)))) [0..<n] =
      map (\<lambda>i. f (data a ! i)) [0..<n]"
  proof (rule map_cong [OF refl])
    fix i assume "i \<in> set [0..<n]"
    with l have "i < length (data a)" by simp
    then show "nested f [] (take 1 (drop i (data a))) = f (data a ! i)"
      by (simp add: take_Suc_conv_app_nth)
  qed
  also have "\<dots> = map f (map (\<lambda>i. data a ! i) [0..<length (data a)])"
    by (simp add: l)
  also have "\<dots> = map f (data a)" by (simp only: map_nth)
  finally show ?thesis using assms(1) by (simp add: tolist_def)
qed

lemma json_loads_serialize:
  "json_loads (serialize self) =
     Inr [(''onset'', tolist JNumber (onset self)),
          (''duration'', tolist JNumber (duration self)),
          (''description'', tolist JString (description self)),
          (''orig_time'', case orig_time self of None \<Rightarrow> JNull | Some t \<Rightarrow> JNumber t)]"
  by (simp only: serialize_def json_loads_dumps)

text \<open>
  Claim C9 (round trip): parsing the text that \<^verbatim>\<open>_serialize\<close> writes gives back a
  dictionary with the keys \<^verbatim>\<open>onset\<close>, \<^verbatim>\<open>duration\<close>, \<^verbatim>\<open>description\<close> and \<^verbatim>\<open>orig_time\<close>. For
  a constructed set the first two hold the lists of the stored onsets and durations,
  \<^verbatim>\<open>description\<close> holds the stored descriptions (a plain list when the description is
  one-dimensional), and \<^verbatim>\<open>orig_time\<close> holds the stored number, or null when none is
  stored.
\<close>

theorem serialize_round_trip:
  assumes "Annotations_init argsort on du de ot = Inr self"
    and "valid_array on" "valid_array du"
  shows "\<exists>d. json_loads (serialize self) = Inr d \<and>
           dom (map_of d) = {''onset'', ''duration'', ''description'', ''orig_time''} \<and>
           map_of d ''onset'' = Some (JArray (map JNumber (data (onset self)))) \<and>
           map_of d ''duration'' = Some (JArray (map JNumber (data (duration self)))) \<and>
           map_of d ''description'' = Some (tolist JString (description self)) \<and>
           (valid_array de \<and> ndim de = 1 \<longrightarrow>
              map_of d ''description'' =
                Some (JArray (map JString (data (description self))))) \<and>
           map_of d ''orig_time'' =
             Some (case orig_time self of None \<Rightarrow> JNull | Some t \<Rightarrow> JNumber t)"
proof -
  let ?order = "argsort (data on)"
  from assms(1) obtain n rest where s: "shape on = [n]" "shape du = [n]" "shape de = n # rest"
    "list_all (\<lambda>i. i < n) ?order"
    by (rule Annotations_init_Inr_shapes)
  note o = Annotations_init_ok [where argsort = argsort and ot = ot, OF s]
  from o assms(1)
  have sh: "shape (onset self) = [length ?order]" "shape (duration self) = [length ?order]"
    "shape (description self) = length ?order # rest"
    by auto
  from s have r: "take_rows on ?order =
      Inr \<lparr>shape = [length ?order], data = concat (map (row on) ?order)\<rparr>"
    "take_rows du ?order =
      Inr \<lparr>shape = [length ?order], data = concat (map (row du) ?order)\<rparr>"
    "take_rows de ?order =
      Inr \<lparr>shape = length ?order # rest, data = concat (map (row de) ?order)\<rparr>"
    by (simp_all add: take_rows_def)
  from o assms(1)
  have f: "onset self = \<lparr>shape = [length ?order], data = concat (map (row on) ?order)\<rparr>"
    "duration self = \<lparr>shape = [length ?order], data = concat (map (row du) ?order)\<rparr>"
    "description self =
      \<lparr>shape = length ?order # rest, data = concat (map (row de) ?order)\<rparr>"
    by auto
  have v: "valid_array (onset self)" "valid_array (duration self)"
    using take_rows_valid [OF assms(2) r(1)] take_rows_valid [OF assms(3) r(2)] f by simp_all
  have t: "tolist JNumber (onset self) = JArray (map JNumber (data (onset self)))"
    "tolist JNumber (duration self) = JArray (map JNumber (data (duration self)))"
    by (rule tolist_1d [OF sh(1) v(1)], rule tolist_1d [OF sh(2) v(2)])
  have u: "tolist JString (description self) = JArray (map JString (data (description self)))"
    if "valid_array de" "ndim de = 1"
  proof -
    from that(2) s(3) have "rest = []" by (simp add: ndim_def)
    with sh(3) have "shape (description self) = [length ?order]" by simp
    moreover have "valid_array (description self)"
      using take_rows_valid [OF that(1) r(3)] f(3) by simp
    ultimately show ?thesis by (rule tolist_1d)
  qed
  show ?thesis
    unfolding json_loads_serialize t using u by (auto simp: dom_map_of_conv_image_fst)
qed

theorem serialize_round_trip_witness:
  "Annotations_init argsort_stable \<lparr>shape = [1], data = [1]\<rparr> \<lparr>shape = [1], data = [1 / 2]\<rparr>
      \<lparr>shape = [1], data = [''x'']\<rparr> (Some (Scalar (PyInt 7))) =
     Inr (example_a\<lparr>orig_time := Some 7\<rparr>) \<and>
   valid_array \<lparr>shape = [1], data = [1 :: real]\<rparr> \<and>
   valid_array \<lparr>shape = [1], data = [1 / 2 :: real]\<rparr> \<and>
   valid_array \<lparr>shape = [1], data = [''x'']\<rparr> \<and>
   ndim \<lparr>shape = [1], data = [''x'']\<rparr> = 1 \<and>
   serialize (example_a\<lparr>orig_time := Some 7\<rparr>) =
     [LBrace, Str ''onset'', Colon, LBracket, Num 1, RBracket, Comma,
      Str ''duration'', Colon, LBracket, Num (1 / 2), RBracket, Comma,
      Str ''description'', Colon, LBracket, Str ''x'', RBracket, Comma,
      Str ''orig_time'', Colon, Num 7, RBrace] \<and>
   json_loads (serialize (example_a\<lparr>orig_time := Some 7\<rparr>)) =
     Inr [(''onset'', JArray [JNumber 1]), (''duration'', JArray [JNumber (1 / 2)]),
          (''description'', JArray [JString ''x'']), (''orig_time'', JNumber 7)] \<and>
   json_loads (serialize (example_a\<lparr>orig_time := None\<rparr>)) =
     Inr [(''onset'', JArray [JNumber 1]), (''duration'', JArray [JNumber (1 / 2)]),
          (''description'', JArray [JString ''x'']), (''orig_time'', JNull)] \<and>
   (\<exists>d. json_loads (serialize (example_a\<lparr>orig_time := Some 7\<rparr>)) = Inr d \<and>
      map_of d ''onset'' = Some (JArray (map JNumber [1])) \<and>
      map_of d ''duration'' = Some (JArray (map JNumber [1 / 2])) \<and>
      map_of d ''description'' = Some (JArray (map JString [''x''])) \<and>
      map_of d ''orig_time'' = Some (JNumber 7))"
proof -
  let ?on = "\<lparr>shape = [1], data = [1 :: real]\<rparr>"
  let ?du = "\<lparr>shape = [1], data = [1 / 2 :: real]\<rparr>"
  let ?de = "\<lparr>shape = [1], data = [''x'']\<rparr>"
  let ?self = "example_a\<lparr>orig_time := Some 7\<rparr>"
  have i: "Annotations_init argsort_stable ?on ?du ?de (Some (Scalar (PyInt 7))) = Inr ?self"
    by (subst example_init_orig_time) (simp add: init_orig_time_def)
  have v: "valid_array ?on" "valid_array ?du" "valid_array ?de"
    by (simp_all add: valid_array_def)
  have n: "ndim ?de = 1" by (simp add: ndim_def)
  have tl: "tolist JNumber \<lparr>shape = [1], data = [1 :: real]\<rparr> = JArray [JNumber 1]"
    "tolist JNumber \<lparr>shape = [1], data = [1 / 2 :: real]\<rparr> = JArray [JNumber (1 / 2)]"
    "tolist JString \<lparr>shape = [1], data = [''x'']\<rparr> = JArray [JString ''x'']"
    by (simp_all add: tolist_def)
  have s: "serialize ?self =
     [LBrace, Str ''onset'', Colon, LBracket, Num 1, RBracket, Comma,
      Str ''duration'', Colon, LBracket, Num (1 / 2), RBracket, Comma,
      Str ''description'', Colon, LBracket, Str ''x'', RBracket, Comma,
      Str ''orig_time'', Colon, Num 7, RBrace]"
    unfolding serialize_def example_a_def Annotations.select_convs Annotations.update_convs tl
    by (simp add: json_dumps_def encode_item_def)
  have l1: "json_loads (serialize ?self) =
     Inr [(''onset'', JArray [JNumber 1]), (''duration'', JArray [JNumber (1 / 2)]),
          (''description'', JArray [JString ''x'']), (''orig_time'', JNumber 7)]"
    unfolding json_loads_serialize example_a_def Annotations.select_convs
      Annotations.update_convs tl
    by simp
  have l2: "json_loads (serialize (example_a\<lparr>orig_time := None\<rparr>)) =
     Inr [(''onset'', JArray [JNumber 1]), (''duration'', JArray [JNumber (1 / 2)]),
          (''description'', JArray [JString ''x'']), (''orig_time'', JNull)]"
    unfolding json_loads_serialize example_a_def Annotations.select_convs
      Annotations.update_convs tl
    by simp
  from serialize_round_trip [OF i v(1,2)] v(3) n
  have e: "\<exists>d. json_loads (serialize ?self) = Inr d \<and>
      map_of d ''onset'' = Some (JArray (map JNumber [1])) \<and>
      map_of d ''duration'' = Some (JArray (map JNumber [1 / 2])) \<and>
      map_of d ''description'' = Some (JArray (map JString [''x''])) \<and>
      map_of d ''orig_time'' = Some (JNumber 7)"
    by (auto simp: example_a_def)
  from i v n s l1 l2 e show ?thesis by blast
qed

end
